theory Spec2Isabelle
  imports Complex_Main
begin

section \<open>JavaScript strings\<close>

text \<open>
  A JavaScript string is a sequence of UTF-16 code units. It is modelled as a
  \<^typ>\<open>string\<close> in which every \<^typ>\<open>char\<close> stands for one code unit of the
  range 0..255, so \<^const>\<open>length\<close> is the source's \<^verbatim>\<open>.length\<close>.
  Numbers that the source uses as counters and indices are naturals (they stay far
  below \<open>2^53\<close>, where JavaScript numbers are exact integers).
\<close>

definition is_space :: "char \<Rightarrow> bool" where
  \<comment> \<open>the characters matched by \<^verbatim>\<open>\s\<close> and removed by \<^verbatim>\<open>trim()\<close>:
      TAB, LF, VT, FF, CR, SPACE, NBSP\<close>
  "is_space c = (c \<in> {CHR 0x09, CHR 0x0A, CHR 0x0B, CHR 0x0C, CHR 0x0D, CHR 0x20, CHR 0xA0})"

definition trim :: "string \<Rightarrow> string" where
  "trim s = rev (dropWhile is_space (rev (dropWhile is_space s)))"

definition startsWith :: "string \<Rightarrow> string \<Rightarrow> bool" where
  "startsWith s p = (take (length p) s = p)"

definition endsWith :: "string \<Rightarrow> string \<Rightarrow> bool" where
  "endsWith s p = (length p \<le> length s \<and> drop (length s - length p) s = p)"

definition substring0 :: "string \<Rightarrow> nat \<Rightarrow> string" where
  \<comment> \<open>\<^verbatim>\<open>s.substring(0, n)\<close>\<close>
  "substring0 s n = take n s"

definition digit_char :: "nat \<Rightarrow> char" where
  "digit_char d = ''0123456789'' ! d"

fun string_of_nat :: "nat \<Rightarrow> string" where
  \<comment> \<open>\<^verbatim>\<open>String(n)\<close> for a non-negative integer\<close>
  "string_of_nat n =
     (if n < 10 then [digit_char n] else string_of_nat (n div 10) @ [digit_char (n mod 10)])"

declare string_of_nat.simps [simp del]

definition padStart :: "string \<Rightarrow> nat \<Rightarrow> char \<Rightarrow> string" where
  \<comment> \<open>\<^verbatim>\<open>s.padStart(n, c)\<close> with a one-character filler\<close>
  "padStart s n c = replicate (n - length s) c @ s"

definition digit_val :: "char \<Rightarrow> nat" where
  "digit_val c = of_char c - 48"

definition nat_of_digits :: "string \<Rightarrow> nat" where
  "nat_of_digits s = foldl (\<lambda>a c. 10 * a + digit_val c) 0 s"

lemma digit_val_digit_char: "d < 10 \<Longrightarrow> digit_val (digit_char d) = d"
proof -
  assume "d < 10"
  then have "d \<in> {0, 1, 2, 3, 4, 5, 6, 7, 8, 9}" by auto
  then show ?thesis
    by (auto simp: digit_val_def digit_char_def)
qed

lemma nat_of_digits_snoc: "nat_of_digits (s @ [c]) = 10 * nat_of_digits s + digit_val c"
  by (simp add: nat_of_digits_def)

lemma nat_of_digits_string_of_nat: "nat_of_digits (string_of_nat n) = n"
proof (induction n rule: string_of_nat.induct)
  case (1 n)
  show ?case
  proof (cases "n < 10")
    case True
    then show ?thesis
      by (simp add: string_of_nat.simps [of n] nat_of_digits_def digit_val_digit_char)
  next
    case False
    with 1 have "nat_of_digits (string_of_nat (n div 10)) = n div 10" by simp
    with False show ?thesis
      by (simp add: string_of_nat.simps [of n] nat_of_digits_snoc digit_val_digit_char)
  qed
qed

lemma nat_of_digits_zeros: "nat_of_digits (replicate k (CHR ''0'') @ s) = nat_of_digits s"
proof (induction k)
  case 0 show ?case by simp
next
  case (Suc k)
  have "foldl (\<lambda>a c. 10 * a + digit_val c) 0 (CHR ''0'' # (replicate k (CHR ''0'') @ s))
        = foldl (\<lambda>a c. 10 * a + digit_val c) 0 (replicate k (CHR ''0'') @ s)"
    by (simp add: digit_val_def)
  with Suc show ?case by (simp add: nat_of_digits_def)
qed

definition tc_label :: "nat \<Rightarrow> string" where
  "tc_label n = ''TC-'' @ padStart (string_of_nat n) 3 (CHR ''0'')"

lemma tc_label_inj: "tc_label m = tc_label n \<Longrightarrow> m = n"
proof -
  assume "tc_label m = tc_label n"
  then have "padStart (string_of_nat m) 3 (CHR ''0'') = padStart (string_of_nat n) 3 (CHR ''0'')"
    by (simp add: tc_label_def)
  then have "nat_of_digits (padStart (string_of_nat m) 3 (CHR ''0''))
           = nat_of_digits (padStart (string_of_nat n) 3 (CHR ''0''))" by simp
  then show "m = n"
    by (simp add: padStart_def nat_of_digits_zeros nat_of_digits_string_of_nat)
qed


section \<open>Token Accountant (src/lib/tokenCounter.ts)\<close>

definition estimateTokens :: "string \<Rightarrow> nat" where
  \<comment> \<open>\<^verbatim>\<open>if (!text) return 0; return Math.ceil(text.length / 4);\<close>\<close>
  "estimateTokens text =
     (if text = [] then 0 else nat \<lceil>real (length text) / 4\<rceil>)"

lemma ceil_quarter: "nat \<lceil>real n / 4\<rceil> = (n + 3) div 4"
proof -
  have "\<lceil>real n / 4\<rceil> = \<lceil>real_of_int (int n) / real_of_int 4\<rceil>" by simp
  also have "\<dots> = - ((- int n) div 4)" by (simp only: ceiling_divide_eq_div)
  also have "\<dots> = (int n + 3) div 4" by linarith
  finally show ?thesis by (simp add: nat_div_distrib zdiv_int)
qed

lemma estimateTokens_div: "estimateTokens text = (length text + 3) div 4"
  by (simp add: estimateTokens_def ceil_quarter)

section \<open>JavaScript values\<close>

datatype jsval =
    JUndefined
  | JNull
  | JBool bool
  | JNum string
  | JStr string
  | JArr "jsval list"
  | JObj "(string \<times> jsval) list"

datatype error = TypeError string | SyntaxError string | Error string

fun truthy :: "jsval \<Rightarrow> bool" where
  "truthy JUndefined = False"
| "truthy JNull = False"
| "truthy (JBool b) = b"
| "truthy (JNum lit) =
     (\<exists>c \<in> set (takeWhile (\<lambda>c. c \<noteq> CHR ''e'' \<and> c \<noteq> CHR ''E'') lit). c \<in> set ''123456789'')"
| "truthy (JStr s) = (s \<noteq> [])"
| "truthy (JArr xs) = True"
| "truthy (JObj kvs) = True"

definition or_else :: "jsval \<Rightarrow> jsval \<Rightarrow> jsval" where
  "or_else v d = (if truthy v then v else d)"

fun readable :: "jsval \<Rightarrow> bool" where
  "readable JUndefined = False"
| "readable JNull = False"
| "readable v = True"

fun get_prop :: "jsval \<Rightarrow> string \<Rightarrow> jsval" where
  "get_prop (JObj kvs) k = (case map_of kvs k of None \<Rightarrow> JUndefined | Some v \<Rightarrow> v)"
| "get_prop v k = JUndefined"

fun isArray :: "jsval \<Rightarrow> bool" where
  "isArray (JArr xs) = True"
| "isArray v = False"

fun is_primitive :: "jsval \<Rightarrow> bool" where
  "is_primitive (JArr xs) = False"
| "is_primitive (JObj kvs) = False"
| "is_primitive v = True"

definition set_has :: "jsval list \<Rightarrow> jsval \<Rightarrow> bool" where
  "set_has ids v = (is_primitive v \<and> v \<in> set ids)"

definition set_add :: "jsval list \<Rightarrow> jsval \<Rightarrow> jsval list" where
  "set_add ids v = (if set_has ids v then ids else ids @ [v])"

record TestCase =
  testId :: jsval
  title :: jsval
  description :: jsval
  preconditions :: jsval
  steps :: jsval
  expectedResult :: jsval
  priority :: jsval
  type :: jsval

lemma label_free: "\<exists>k. \<not> set_has ids (JStr (tc_label (c + k)))"
proof -
  have "inj (\<lambda>k. JStr (tc_label (c + k)))"
    by (auto simp: inj_def dest: tc_label_inj)
  then have "infinite (range (\<lambda>k. JStr (tc_label (c + k))))"
    using finite_imageD [of "\<lambda>k. JStr (tc_label (c + k))" UNIV] by auto
  then have "\<not> range (\<lambda>k. JStr (tc_label (c + k))) \<subseteq> set ids"
    using finite_subset by blast
  then show ?thesis by (auto simp: set_has_def)
qed

definition probes_left :: "jsval list \<Rightarrow> nat \<Rightarrow> nat" where
  "probes_left ids c = (LEAST k. \<not> set_has ids (JStr (tc_label (c + k))))"

lemma probes_left_step:
  "set_has ids (JStr (tc_label c)) \<Longrightarrow> probes_left ids c = Suc (probes_left ids (Suc c))"
proof -
  assume h: "set_has ids (JStr (tc_label c))"
  obtain k where k: "\<not> set_has ids (JStr (tc_label (c + k)))" using label_free by blast
  have "(LEAST k. \<not> set_has ids (JStr (tc_label (c + k))))
        = Suc (LEAST m. \<not> set_has ids (JStr (tc_label (c + Suc m))))"
    by (rule Least_Suc [where n = k]) (use k h in auto)
  then show ?thesis by (simp add: probes_left_def)
qed

function probe_id :: "jsval list \<Rightarrow> jsval \<Rightarrow> nat \<Rightarrow> jsval" where
  "probe_id ids tid counter =
     (if set_has ids tid then probe_id ids (JStr (tc_label counter)) (counter + 1)
      else tid)"
  by pat_completeness auto
termination
proof (relation "measure (\<lambda>(ids, t, c). if set_has ids t then Suc (probes_left ids c) else 0)")
  show "wf (measure (\<lambda>(ids, t, c). if set_has ids t then Suc (probes_left ids c) else 0))"
    by simp
next
  fix ids :: "jsval list" and tid :: jsval and counter :: nat
  assume "set_has ids tid"
  then show "((ids, JStr (tc_label counter), counter + 1), (ids, tid, counter))
        \<in> measure (\<lambda>(ids, t, c). if set_has ids t then Suc (probes_left ids c) else 0)"
    by (simp add: probes_left_step)
qed

declare probe_id.simps [simp del]

section \<open>Record Normalizer (src/lib/utils/normalizeTestCase.ts)\<close>

definition normalizeTestCase ::
  "jsval \<Rightarrow> nat \<Rightarrow> jsval list option \<Rightarrow> error + TestCase \<times> jsval list option" where
  "normalizeTestCase tc index existingIds =
     (if \<not> readable tc then Inl (TypeError ''Cannot read properties of null or undefined'')
      else
        let tid0 = or_else (get_prop tc ''testId'') (JStr (tc_label (index + 1)));
            tid = (case existingIds of
                     None \<Rightarrow> tid0
                   | Some ids \<Rightarrow> probe_id ids tid0 (index + 1));
            ids' = (case existingIds of
                      None \<Rightarrow> None
                    | Some ids \<Rightarrow> Some (set_add ids tid))
        in Inr (\<lparr> testId = tid,
                  title = or_else (get_prop tc ''title'')
                            (JStr (''Test Case '' @ string_of_nat (index + 1))),
                  description = or_else (get_prop tc ''description'') (JStr []),
                  preconditions = or_else (get_prop tc ''preconditions'') (JStr []),
                  steps = (if isArray (get_prop tc ''steps'') then get_prop tc ''steps''
                           else JArr []),
                  expectedResult = or_else (get_prop tc ''expectedResult'') (JStr []),
                  priority = or_else (get_prop tc ''priority'') (JStr ''Medium''),
                  type = or_else (get_prop tc ''type'') (JStr ''Functional'') \<rparr>,
                ids'))"

fun map_testId :: "jsval list \<Rightarrow> error + jsval list" where
  \<comment> \<open>\<^verbatim>\<open>existingTestCases.map(tc => tc.testId)\<close>\<close>
  "map_testId [] = Inr []"
| "map_testId (tc # tcs) =
     (if \<not> readable tc then Inl (TypeError ''Cannot read properties of null or undefined'')
      else case map_testId tcs of
             Inl e \<Rightarrow> Inl e
           | Inr vs \<Rightarrow> Inr (get_prop tc ''testId'' # vs))"

definition new_Set :: "jsval list \<Rightarrow> jsval list" where
  "new_Set vs = foldl set_add [] vs"

fun normalize_each ::
  "jsval list \<Rightarrow> nat \<Rightarrow> nat \<Rightarrow> jsval list \<Rightarrow> error + TestCase list" where
  \<comment> \<open>the \<^verbatim>\<open>testCases.map((tc, index) => ...)\<close> of normalizeTestCases, from position
      \<open>index\<close> on; \<open>len\<close> is \<^verbatim>\<open>existingTestCases.length\<close> and \<open>ids\<close> the shared Set\<close>
  "normalize_each [] len index ids = Inr []"
| "normalize_each (tc # tcs) len index ids =
     (case normalizeTestCase tc (len + index + 1) (Some ids) of
        Inl e \<Rightarrow> Inl e
      | Inr (r, ids') \<Rightarrow>
          (case normalize_each tcs len (index + 1) (case ids' of None \<Rightarrow> ids | Some i \<Rightarrow> i) of
             Inl e \<Rightarrow> Inl e
           | Inr rs \<Rightarrow> Inr (r # rs)))"

definition normalizeTestCases :: "jsval list \<Rightarrow> jsval list \<Rightarrow> error + TestCase list" where
  "normalizeTestCases testCases existingTestCases =
     (case map_testId existingTestCases of
        Inl e \<Rightarrow> Inl e
      | Inr vs \<Rightarrow> normalize_each testCases (length existingTestCases) 0 (new_Set vs))"

subsection \<open>Properties of the identifier probe and of the batch normalizer\<close>

lemma probe_id_free: "\<not> set_has ids (probe_id ids t c)"
  by (induction ids t c rule: probe_id.induct) (simp add: probe_id.simps)

lemma probe_id_keep: "\<not> set_has ids t \<Longrightarrow> probe_id ids t c = t"
  by (simp add: probe_id.simps)

lemma probes_left_zero: "\<not> set_has ids (JStr (tc_label c)) \<Longrightarrow> probes_left ids c = 0"
  by (simp add: probes_left_def)

lemma probe_id_label:
  "set_has ids t \<Longrightarrow> probe_id ids t c = JStr (tc_label (c + probes_left ids c))"
proof (induction ids t c rule: probe_id.induct)
  case (1 ids t c)
  show ?case
  proof (cases "set_has ids (JStr (tc_label c))")
    case True
    with 1 have "probe_id ids (JStr (tc_label c)) (c + 1)
                 = JStr (tc_label (c + 1 + probes_left ids (c + 1)))" by simp
    with True 1 show ?thesis
      by (simp add: probe_id.simps [of ids t c] probes_left_step)
  next
    case False
    with 1 show ?thesis
      by (simp add: probe_id.simps [of ids t c] probe_id_keep probes_left_zero)
  qed
qed

lemma probes_left_spec:
  "\<not> set_has ids (JStr (tc_label (c + probes_left ids c)))
   \<and> (\<forall>j < probes_left ids c. set_has ids (JStr (tc_label (c + j))))"
proof -
  obtain k where k: "\<not> set_has ids (JStr (tc_label (c + k)))" using label_free by blast
  have a: "\<not> set_has ids (JStr (tc_label (c + probes_left ids c)))"
    unfolding probes_left_def by (rule LeastI [of "\<lambda>k. \<not> set_has ids (JStr (tc_label (c + k)))", OF k])
  have b: "\<forall>j < probes_left ids c. set_has ids (JStr (tc_label (c + j)))"
    unfolding probes_left_def using not_less_Least by blast
  from a b show ?thesis by blast
qed

lemma probe_id_primitive: "is_primitive t \<Longrightarrow> is_primitive (probe_id ids t c)"
  by (cases "set_has ids t") (simp_all add: probe_id_keep probe_id_label)

lemma probe_id_notin: "is_primitive t \<Longrightarrow> probe_id ids t c \<notin> set ids"
  using probe_id_free [of ids t c] probe_id_primitive [of t ids c]
  by (simp add: set_has_def)


fun string_or_absent :: "jsval \<Rightarrow> bool" where
  "string_or_absent JUndefined = True"
| "string_or_absent (JStr s) = True"
| "string_or_absent v = False"

lemma or_else_primitive: "string_or_absent v \<Longrightarrow> is_primitive (or_else v (JStr d))"
  by (cases v) (simp_all add: or_else_def)

lemma set_new_Set_aux: "set (foldl set_add acc vs) = set acc \<union> set vs"
  by (induction vs arbitrary: acc) (auto simp: set_add_def set_has_def)

lemma set_new_Set: "set (new_Set vs) = set vs"
  by (simp add: new_Set_def set_new_Set_aux)

lemma map_testId_Inr: "map_testId tcs = Inr vs \<Longrightarrow> vs = map (\<lambda>tc. get_prop tc ''testId'') tcs"
  by (induction tcs arbitrary: vs) (auto split: if_splits sum.splits)

lemma map_testId_total: "\<forall>tc \<in> set tcs. readable tc \<Longrightarrow> \<exists>vs. map_testId tcs = Inr vs"
  by (induction tcs) auto

lemma normalizeTestCase_Some:
  "readable tc \<Longrightarrow>
   \<exists>r. normalizeTestCase tc i (Some ids) =
          Inr (r, Some (set_add ids (probe_id ids (or_else (get_prop tc ''testId'') (JStr (tc_label (i + 1)))) (i + 1))))
      \<and> testId r = probe_id ids (or_else (get_prop tc ''testId'') (JStr (tc_label (i + 1)))) (i + 1)"
  by (simp add: normalizeTestCase_def Let_def)

lemma normalizeTestCase_Inr_readable: "normalizeTestCase tc i ids = Inr x \<Longrightarrow> readable tc"
  by (simp add: normalizeTestCase_def split: if_splits)

lemma normalize_each_ids:
  "\<forall>tc \<in> set tcs. string_or_absent (get_prop tc ''testId'') \<Longrightarrow>
   normalize_each tcs len i ids = Inr rs \<Longrightarrow>
   distinct (map testId rs) \<and> (\<forall>r \<in> set rs. testId r \<notin> set ids) \<and> length rs = length tcs"
proof (induction tcs arbitrary: i ids rs)
  case Nil
  then show ?case by simp
next
  case (Cons tc tcs)
  let ?t = "probe_id ids (or_else (get_prop tc ''testId'') (JStr (tc_label (len + i + 1 + 1)))) (len + i + 1 + 1)"
  from Cons.prems(2) have rd: "readable tc"
    by (auto split: sum.splits dest: normalizeTestCase_Inr_readable)
  from normalizeTestCase_Some [OF rd, of "len + i + 1" ids]
  obtain r where r: "normalizeTestCase tc (len + i + 1) (Some ids) = Inr (r, Some (set_add ids ?t))"
    and rt: "testId r = ?t" by blast
  from Cons.prems(1) have prim: "is_primitive ?t"
    by (simp add: or_else_primitive probe_id_primitive)
  then have notin: "?t \<notin> set ids" using probe_id_free [of ids _ "len + i + 1 + 1"]
    by (simp add: set_has_def)
  then have add: "set_add ids ?t = ids @ [?t]" by (simp add: set_add_def set_has_def)
  have step: "normalize_each (tc # tcs) len i ids =
      (case normalize_each tcs len (i + 1) (ids @ [?t]) of
         Inl e \<Rightarrow> Inl e | Inr rs \<Rightarrow> Inr (r # rs))"
    by (simp only: normalize_each.simps r add sum.case prod.case option.case)
  from Cons.prems(2) obtain rs' where
    rs': "normalize_each tcs len (i + 1) (ids @ [?t]) = Inr rs'" and rs: "rs = r # rs'"
    unfolding step by (auto split: sum.splits)
  from Cons.prems(1) have "\<forall>tc \<in> set tcs. string_or_absent (get_prop tc ''testId'')" by simp
  from Cons.IH [OF this rs']
  have ih: "distinct (map testId rs')" "\<forall>r \<in> set rs'. testId r \<notin> set (ids @ [?t])"
    "length rs' = length tcs" by blast+
  from ih(2) rt have "testId r \<notin> testId ` set rs'" by auto
  with ih rs rt notin show ?case by auto
qed

section \<open>JSON.parse\<close>

text \<open>
  The platform's \<^verbatim>\<open>JSON.parse\<close>, modelled from the JSON grammar (ECMA-404) as a
  character-driven automaton with an explicit stack of open arrays and objects. A number
  keeps its literal text (its IEEE value is outside the model); a repeated key keeps its
  first position and its last value, as in JavaScript; a \<^verbatim>\<open>\uXXXX\<close> escape above
  \<^verbatim>\<open>\u00FF\<close> denotes a code unit outside the modelled range and is rejected.
\<close>

datatype frame = FArr "jsval list" | FObj "(string \<times> jsval) list" "string option"

datatype numst = NMinus | NZero | NInt | NDot | NFrac | NExp | NExpSign | NExpDigits

datatype litst = T_rue | T_ue | T_e | F_alse | F_lse | F_se | F_e | N_ull | N_ll | N_l

fun lit_expect :: "litst \<Rightarrow> char" where
  \<comment> \<open>the next character of the literal \<^verbatim>\<open>true\<close>, \<^verbatim>\<open>false\<close> or \<^verbatim>\<open>null\<close> being read\<close>
  "lit_expect T_rue = CHR ''r''"
| "lit_expect T_ue = CHR ''u''"
| "lit_expect T_e = CHR ''e''"
| "lit_expect F_alse = CHR ''a''"
| "lit_expect F_lse = CHR ''l''"
| "lit_expect F_se = CHR ''s''"
| "lit_expect F_e = CHR ''e''"
| "lit_expect N_ull = CHR ''u''"
| "lit_expect N_ll = CHR ''l''"
| "lit_expect N_l = CHR ''l''"

fun lit_next :: "litst \<Rightarrow> litst + jsval" where
  "lit_next T_rue = Inl T_ue"
| "lit_next T_ue = Inl T_e"
| "lit_next T_e = Inr (JBool True)"
| "lit_next F_alse = Inl F_lse"
| "lit_next F_lse = Inl F_se"
| "lit_next F_se = Inl F_e"
| "lit_next F_e = Inr (JBool False)"
| "lit_next N_ull = Inl N_ll"
| "lit_next N_ll = Inl N_l"
| "lit_next N_l = Inr JNull"

datatype mode =
    MValue
  | MValueOrEnd
  | MKeyOrEnd
  | MKey
  | MColon
  | MAfter
  | MStr bool string
  | MEsc bool string
  | MUni bool string string
  | MNum numst string
  | MLit litst
  | MFail

type_synonym pstate = "mode \<times> frame list \<times> jsval option"

definition is_json_ws :: "char \<Rightarrow> bool" where
  "is_json_ws c = (c \<in> {CHR 0x20, CHR 0x09, CHR 0x0A, CHR 0x0D})"

definition is_digit :: "char \<Rightarrow> bool" where
  "is_digit c = (c \<in> set ''0123456789'')"

definition hex_val :: "char \<Rightarrow> nat option" where
  "hex_val c =
     (if c \<in> set ''0123456789'' then Some (of_char c - 48)
      else if c \<in> set ''abcdef'' then Some (of_char c - 87)
      else if c \<in> set ''ABCDEF'' then Some (of_char c - 55)
      else None)"

definition obj_put :: "string \<Rightarrow> jsval \<Rightarrow> (string \<times> jsval) list \<Rightarrow> (string \<times> jsval) list" where
  "obj_put k v kvs =
     (if k \<in> fst ` set kvs then map (\<lambda>(k', v'). if k' = k then (k, v) else (k', v')) kvs
      else kvs @ [(k, v)])"

definition failed :: pstate where
  "failed = (MFail, [], None)"

fun deliver :: "jsval \<Rightarrow> frame list \<Rightarrow> pstate" where
  "deliver v [] = (MAfter, [], Some v)"
| "deliver v (FArr items # stk) = (MAfter, FArr (items @ [v]) # stk, None)"
| "deliver v (FObj kvs (Some k) # stk) = (MAfter, FObj (obj_put k v kvs) None # stk, None)"
| "deliver v (FObj kvs None # stk) = failed"

fun close_array :: "frame list \<Rightarrow> pstate" where
  "close_array (FArr items # stk) = deliver (JArr items) stk"
| "close_array stk = failed"

fun close_object :: "frame list \<Rightarrow> pstate" where
  "close_object (FObj kvs None # stk) = deliver (JObj kvs) stk"
| "close_object stk = failed"

definition start_value :: "char \<Rightarrow> frame list \<Rightarrow> pstate" where
  "start_value c stk =
     (if c = CHR ''{'' then (MKeyOrEnd, FObj [] None # stk, None)
      else if c = CHR ''['' then (MValueOrEnd, FArr [] # stk, None)
      else if c = CHR 0x22 then (MStr False [], stk, None)
      else if c = CHR ''-'' then (MNum NMinus [c], stk, None)
      else if c = CHR ''0'' then (MNum NZero [c], stk, None)
      else if is_digit c then (MNum NInt [c], stk, None)
      else if c = CHR ''t'' then (MLit T_rue, stk, None)
      else if c = CHR ''f'' then (MLit F_alse, stk, None)
      else if c = CHR ''n'' then (MLit N_ull, stk, None)
      else failed)"

fun after_comma :: "frame list \<Rightarrow> pstate" where
  "after_comma (FArr items # stk) = (MValue, FArr items # stk, None)"
| "after_comma (FObj kvs None # stk) = (MKey, FObj kvs None # stk, None)"
| "after_comma stk = failed"

definition after_value :: "char \<Rightarrow> frame list \<Rightarrow> jsval option \<Rightarrow> pstate" where
  "after_value c stk res =
     (if is_json_ws c then (MAfter, stk, res)
      else if c = CHR '','' then after_comma stk
      else if c = CHR '']'' then close_array stk
      else if c = CHR ''}'' then close_object stk
      else failed)"

fun end_string :: "bool \<Rightarrow> string \<Rightarrow> frame list \<Rightarrow> pstate" where
  "end_string False acc stk = deliver (JStr acc) stk"
| "end_string True acc (FObj kvs None # stk) = (MColon, FObj kvs (Some acc) # stk, None)"
| "end_string True acc stk = failed"

definition unescape :: "char \<Rightarrow> char option" where
  "unescape c =
     (if c = CHR 0x22 then Some (CHR 0x22)
      else if c = CHR 0x5C then Some (CHR 0x5C)
      else if c = CHR ''/'' then Some (CHR ''/'')
      else if c = CHR ''b'' then Some (CHR 0x08)
      else if c = CHR ''f'' then Some (CHR 0x0C)
      else if c = CHR ''n'' then Some (CHR 0x0A)
      else if c = CHR ''r'' then Some (CHR 0x0D)
      else if c = CHR ''t'' then Some (CHR 0x09)
      else None)"

definition code_unit :: "string \<Rightarrow> char option" where
  "code_unit ds =
     (case map hex_val ds of
        [Some a, Some b, Some c, Some d] \<Rightarrow>
          (if a = 0 \<and> b = 0 then Some (char_of (16 * c + d)) else None)
      | _ \<Rightarrow> None)"

fun num_step :: "numst \<Rightarrow> char \<Rightarrow> numst option" where
  "num_step NMinus c =
     (if c = CHR ''0'' then Some NZero else if is_digit c then Some NInt else None)"
| "num_step NZero c =
     (if c = CHR ''.'' then Some NDot
      else if c = CHR ''e'' \<or> c = CHR ''E'' then Some NExp else None)"
| "num_step NInt c =
     (if is_digit c then Some NInt
      else if c = CHR ''.'' then Some NDot
      else if c = CHR ''e'' \<or> c = CHR ''E'' then Some NExp else None)"
| "num_step NDot c = (if is_digit c then Some NFrac else None)"
| "num_step NFrac c =
     (if is_digit c then Some NFrac
      else if c = CHR ''e'' \<or> c = CHR ''E'' then Some NExp else None)"
| "num_step NExp c =
     (if c = CHR ''+'' \<or> c = CHR ''-'' then Some NExpSign
      else if is_digit c then Some NExpDigits else None)"
| "num_step NExpSign c = (if is_digit c then Some NExpDigits else None)"
| "num_step NExpDigits c = (if is_digit c then Some NExpDigits else None)"

fun num_final :: "numst \<Rightarrow> bool" where
  "num_final NZero = True"
| "num_final NInt = True"
| "num_final NFrac = True"
| "num_final NExpDigits = True"
| "num_final ns = False"

fun step :: "pstate \<Rightarrow> char \<Rightarrow> pstate" where
  "step (MFail, stk, res) c = failed"
| "step (MValue, stk, res) c =
     (if is_json_ws c then (MValue, stk, res) else start_value c stk)"
| "step (MValueOrEnd, stk, res) c =
     (if is_json_ws c then (MValueOrEnd, stk, res)
      else if c = CHR '']'' then close_array stk
      else start_value c stk)"
| "step (MKeyOrEnd, stk, res) c =
     (if is_json_ws c then (MKeyOrEnd, stk, res)
      else if c = CHR ''}'' then close_object stk
      else if c = CHR 0x22 then (MStr True [], stk, None)
      else failed)"
| "step (MKey, stk, res) c =
     (if is_json_ws c then (MKey, stk, res)
      else if c = CHR 0x22 then (MStr True [], stk, None)
      else failed)"
| "step (MColon, stk, res) c =
     (if is_json_ws c then (MColon, stk, res)
      else if c = CHR '':'' then (MValue, stk, None)
      else failed)"
| "step (MAfter, stk, res) c = after_value c stk res"
| "step (MStr k acc, stk, res) c =
     (if c = CHR 0x22 then end_string k acc stk
      else if c = CHR 0x5C then (MEsc k acc, stk, None)
      else if (of_char c :: nat) < 32 then failed
      else (MStr k (acc @ [c]), stk, None))"
| "step (MEsc k acc, stk, res) c =
     (case unescape c of
        Some d \<Rightarrow> (MStr k (acc @ [d]), stk, None)
      | None \<Rightarrow> if c = CHR ''u'' then (MUni k acc [], stk, None) else failed)"
| "step (MUni k acc ds, stk, res) c =
     (if hex_val c = None then failed
      else if length ds < 3 then (MUni k acc (ds @ [c]), stk, None)
      else case code_unit (ds @ [c]) of
             Some d \<Rightarrow> (MStr k (acc @ [d]), stk, None)
           | None \<Rightarrow> failed)"
| "step (MNum ns lit, stk, res) c =
     (case num_step ns c of
        Some ns' \<Rightarrow> (MNum ns' (lit @ [c]), stk, None)
      | None \<Rightarrow>
          if num_final ns
          then (case deliver (JNum lit) stk of
                  (MAfter, stk', res') \<Rightarrow> after_value c stk' res'
                | other \<Rightarrow> failed)
          else failed)"
| "step (MLit l, stk, res) c =
     (if c \<noteq> lit_expect l then failed
      else case lit_next l of
             Inl l' \<Rightarrow> (MLit l', stk, None)
           | Inr v \<Rightarrow> deliver v stk)"

fun finish :: "pstate \<Rightarrow> jsval option" where
  "finish (MAfter, stk, res) = (if stk = [] then res else None)"
| "finish (MNum ns lit, stk, res) = (if num_final ns \<and> stk = [] then Some (JNum lit) else None)"
| "finish (m, stk, res) = None"

definition JSON_parse :: "string \<Rightarrow> jsval option" where
  "JSON_parse s = finish (foldl step (MValue, [], None) s)"

section \<open>Response Parser (src/lib/utils/parseLLMResponse.ts)\<close>

definition fence :: string where
  "fence = ''```''"

definition json_tag :: "string \<Rightarrow> bool" where
  \<comment> \<open>the texts matched by \<^verbatim>\<open>json\<close> under the \<^verbatim>\<open>i\<close> flag\<close>
  "json_tag t =
     (case t of
        [a, b, c, d] \<Rightarrow>
          a \<in> {CHR ''j'', CHR ''J''} \<and> b \<in> {CHR ''s'', CHR ''S''}
          \<and> c \<in> {CHR ''o'', CHR ''O''} \<and> d \<in> {CHR ''n'', CHR ''N''}
      | _ \<Rightarrow> False)"

definition strip_leading_fence :: "string \<Rightarrow> string" where
  \<comment> \<open>\<^verbatim>\<open>s.replace(/^```(?:json)?\s*/i, "")\<close>\<close>
  "strip_leading_fence s =
     (if \<not> startsWith s fence then s
      else let r = drop (length fence) s;
               r' = (if json_tag (take 4 r) then drop 4 r else r)
           in dropWhile is_space r')"

definition strip_trailing_fence :: "string \<Rightarrow> string" where
  \<comment> \<open>\<^verbatim>\<open>s.replace(/\s*```$/i, "")\<close>: the match starts at the white space that precedes
      the final fence\<close>
  "strip_trailing_fence s =
     (if \<not> endsWith s fence then s
      else rev (dropWhile is_space (rev (take (length s - length fence) s))))"

definition defect_head :: string where
  "defect_head = ''\"preconditions\":''"

definition steps_key :: string where
  "steps_key = ''\"steps\"''"

definition match_defect :: "string \<Rightarrow> (string \<times> nat) option" where
  \<comment> \<open>a match of \<^verbatim>\<open>/"preconditions":\s*"([^"]*)"\s*"steps"/\<close> at the start of \<open>s\<close>:
      the captured group and the length of the match\<close>
  "match_defect s =
     (if \<not> startsWith s defect_head then None
      else case dropWhile is_space (drop (length defect_head) s) of
             [] \<Rightarrow> None
           | q # r3 \<Rightarrow>
               if q \<noteq> CHR 0x22 then None
               else case dropWhile (\<lambda>c. c \<noteq> CHR 0x22) r3 of
                      [] \<Rightarrow> None
                    | q' # r5 \<Rightarrow>
                        if startsWith (dropWhile is_space r5) steps_key
                        then Some (takeWhile (\<lambda>c. c \<noteq> CHR 0x22) r3,
                                   length s - length (dropWhile is_space r5) + length steps_key)
                        else None)"

definition defect_replacement :: "string \<Rightarrow> string" where
  \<comment> \<open>the replacement \<^verbatim>\<open>'"preconditions": "$1", "steps"'\<close>\<close>
  "defect_replacement x = ''\"preconditions\": \"'' @ x @ ''\", \"steps\"''"

fun fix_from :: "nat \<Rightarrow> string \<Rightarrow> string" where
  \<comment> \<open>the global replace, scanning from the left; \<open>n\<close> characters of a match that was
      just replaced remain to be skipped\<close>
  "fix_from n [] = []"
| "fix_from (Suc n) (c # cs) = fix_from n cs"
| "fix_from 0 (c # cs) =
     (case match_defect (c # cs) of
        Some (x, len) \<Rightarrow> defect_replacement x @ fix_from (len - 1) cs
      | None \<Rightarrow> c # fix_from 0 cs)"

definition fix_missing_comma :: "string \<Rightarrow> string" where
  "fix_missing_comma s = fix_from 0 s"

definition cleanLLMJsonResponse :: "string \<Rightarrow> string" where
  "cleanLLMJsonResponse text =
     (let cleaned = trim text;
          cleaned = (if startsWith cleaned fence
                     then strip_trailing_fence (strip_leading_fence cleaned)
                     else cleaned)
      in fix_missing_comma cleaned)"

definition JSON_parse_message :: string where
  \<comment> \<open>the message of the SyntaxError of \<^verbatim>\<open>JSON.parse\<close> is defined by the engine\<close>
  "JSON_parse_message = ''Unexpected token in JSON''"

fun message :: "error \<Rightarrow> string" where
  "message (TypeError m) = m"
| "message (SyntaxError m) = m"
| "message (Error m) = m"

definition parseTestCasesFromLLM :: "string \<Rightarrow> error + jsval list" where
  "parseTestCasesFromLLM generatedText =
     (case JSON_parse (cleanLLMJsonResponse generatedText) of
        None \<Rightarrow> Inl (SyntaxError JSON_parse_message)
      | Some parsed \<Rightarrow>
          (case parsed of
             JArr xs \<Rightarrow> Inr xs
           | _ \<Rightarrow> Inl (Error ''LLM response is not a valid array of test cases'')))"

fun typeof_object :: "jsval \<Rightarrow> bool" where
  \<comment> \<open>\<^verbatim>\<open>typeof v === "object"\<close>\<close>
  "typeof_object JNull = True"
| "typeof_object (JArr xs) = True"
| "typeof_object (JObj kvs) = True"
| "typeof_object v = False"

definition parseTestCaseFromLLM :: "string \<Rightarrow> error + jsval" where
  "parseTestCaseFromLLM generatedText =
     (case JSON_parse (cleanLLMJsonResponse generatedText) of
        None \<Rightarrow> Inl (SyntaxError JSON_parse_message)
      | Some parsed \<Rightarrow>
          if isArray parsed then Inl (Error ''Expected single test case object, got array'')
          else if \<not> typeof_object parsed \<or> parsed = JNull
          then Inl (Error ''LLM response is not a valid test case object'')
          else Inr parsed)"

subsection \<open>Lexical facts about accepted JSON text\<close>

lemma fst_failed [simp]: "fst failed = MFail"
  by (simp add: failed_def)

lemma finish_failed [simp]: "finish failed = None"
  by (simp add: failed_def)

lemma step_fail: "fst st = MFail \<Longrightarrow> step st c = failed"
  by (cases st) simp

lemma run_fail: "fst st = MFail \<Longrightarrow> fst (foldl step st s) = MFail"
  by (induction s arbitrary: st) (simp_all add: step_fail)

lemma finish_fail: "fst st = MFail \<Longrightarrow> finish st = None"
  by (cases st) simp

lemma fst_deliver: "fst (deliver v stk) = MAfter \<or> fst (deliver v stk) = MFail"
  by (cases "(v, stk)" rule: deliver.cases) simp_all

lemma fst_close_array: "fst (close_array stk) = MAfter \<or> fst (close_array stk) = MFail"
  by (cases stk rule: close_array.cases) (simp_all add: fst_deliver)

lemma fst_close_object: "fst (close_object stk) = MAfter \<or> fst (close_object stk) = MFail"
  by (cases stk rule: close_object.cases) (simp_all add: fst_deliver)

lemma fst_end_string_value:
  "fst (end_string False acc stk) = MAfter \<or> fst (end_string False acc stk) = MFail"
  by (simp add: fst_deliver)

lemma fst_end_string:
  "fst (end_string k acc stk) = MAfter \<or> fst (end_string k acc stk) = MColon
   \<or> fst (end_string k acc stk) = MFail"
  by (cases "(k, acc, stk)" rule: end_string.cases) (use fst_deliver in auto)

definition in_string :: "mode \<Rightarrow> bool" where
  "in_string m = (case m of MStr k a \<Rightarrow> True | _ \<Rightarrow> False)"

definition in_value_string :: "mode \<Rightarrow> bool" where
  \<comment> \<open>inside a string that is a value, possibly in the middle of an escape\<close>
  "in_value_string m =
     (case m of MStr k a \<Rightarrow> \<not> k | MEsc k a \<Rightarrow> \<not> k | MUni k a d \<Rightarrow> \<not> k | _ \<Rightarrow> False)"

lemma step_num_quote:
  "fst (step (MNum ns lit, stk, res) (CHR 0x22)) = MFail"
proof -
  have n: "num_step ns (CHR 0x22) = None"
    by (cases ns) (simp_all add: is_digit_def)
  obtain m stk' res' where d: "deliver (JNum lit) stk = (m, stk', res')"
    by (cases "deliver (JNum lit) stk") auto
  have "after_value (CHR 0x22) stk' res' = failed"
    by (simp add: after_value_def is_json_ws_def)
  with n d show ?thesis
    by (cases m) simp_all
qed

lemma step_quote:
  "fst (step st (CHR 0x22)) = MFail \<or> fst (step st (CHR 0x22)) = MColon
   \<or> fst (step st (CHR 0x22)) = MAfter \<or> in_string (fst (step st (CHR 0x22)))"
proof -
  obtain m stk res where st: "st = (m, stk, res)" by (cases st) auto
  show ?thesis
  proof (cases m)
    case (MStr k a)
    with st fst_end_string [of k a stk] show ?thesis by auto
  next
    case (MNum ns lit)
    with st step_num_quote show ?thesis by simp
  next
    case (MLit l)
    with st show ?thesis by (cases l) simp_all
  qed (simp_all add: st start_value_def after_value_def is_json_ws_def in_string_def
         unescape_def hex_val_def)
qed

definition plain :: "char \<Rightarrow> bool" where
  "plain c = (c \<noteq> CHR 0x22 \<and> c \<noteq> CHR 0x5C \<and> \<not> (of_char c :: nat) < 32)"

lemma run_plain_in_string:
  "\<forall>c \<in> set w. plain c \<Longrightarrow> in_string (fst st) \<Longrightarrow> in_string (fst (foldl step st w))"
proof (induction w arbitrary: st)
  case Nil
  then show ?case by simp
next
  case (Cons c w)
  obtain m stk res where st: "st = (m, stk, res)" by (cases st) auto
  from Cons.prems have "in_string (fst (step st c))"
    by (cases m) (simp_all add: st in_string_def plain_def)
  with Cons show ?case by simp
qed

lemma step_letter_outside:
  "fst st = MFail \<or> fst st = MColon \<or> fst st = MAfter \<Longrightarrow>
   fst (step st (CHR ''p'')) = MFail \<and> fst (step st (CHR ''s'')) = MFail"
proof -
  assume h: "fst st = MFail \<or> fst st = MColon \<or> fst st = MAfter"
  obtain m stk res where st: "st = (m, stk, res)" by (cases st) auto
  from h show ?thesis
    by (auto simp: st after_value_def is_json_ws_def)
qed

lemma run_head_word:
  "fst (foldl step st ''\"preconditions'') = MFail
   \<or> in_string (fst (foldl step st ''\"preconditions''))"
proof -
  let ?s1 = "step st (CHR 0x22)"
  have split: "foldl step st ''\"preconditions''
               = foldl step (step ?s1 (CHR ''p'')) ''reconditions''" by simp
  from step_quote [of st] consider
    (out) "fst ?s1 = MFail \<or> fst ?s1 = MColon \<or> fst ?s1 = MAfter" | (str) "in_string (fst ?s1)"
    by blast
  then show ?thesis
  proof cases
    case out
    then have "fst (step ?s1 (CHR ''p'')) = MFail" using step_letter_outside by blast
    then show ?thesis unfolding split using run_fail by blast
  next
    case str
    have "in_string (fst (foldl step ?s1 ''preconditions''))"
      by (rule run_plain_in_string [OF _ str]) (simp add: plain_def)
    then show ?thesis by simp
  qed
qed

lemma step_close_key:
  "fst st = MFail \<or> in_string (fst st) \<Longrightarrow>
   fst (foldl step st ''\":'') = MFail \<or> fst (foldl step st ''\":'') = MValue"
proof -
  assume h: "fst st = MFail \<or> in_string (fst st)"
  obtain m stk res where st: "st = (m, stk, res)" by (cases st) auto
  from h show ?thesis
  proof
    assume "fst st = MFail"
    then show ?thesis using run_fail by blast
  next
    assume "in_string (fst st)"
    then obtain k a where m: "m = MStr k a"
      by (cases m) (simp_all add: st in_string_def)
    obtain m' stk' res' where e: "end_string k a stk = (m', stk', res')"
      by (cases "end_string k a stk") auto
    from fst_end_string [of k a stk] e have "m' = MAfter \<or> m' = MColon \<or> m' = MFail" by simp
    then show ?thesis
      by (auto simp: st m e after_value_def is_json_ws_def failed_def)
  qed
qed

lemma run_defect_head:
  "fst (foldl step st defect_head) = MFail \<or> fst (foldl step st defect_head) = MValue"
proof -
  have "foldl step st defect_head = foldl step (foldl step st ''\"preconditions'') ''\":''"
    by (simp add: defect_head_def)
  with step_close_key [OF run_head_word [of st]] show ?thesis by simp
qed

lemma is_space_cases:
  "is_space c \<Longrightarrow> is_json_ws c \<or> c = CHR 0x0B \<or> c = CHR 0x0C \<or> c = CHR 0xA0"
  by (auto simp: is_space_def is_json_ws_def)

lemma is_json_ws_space: "is_json_ws c \<Longrightarrow> is_space c"
  by (auto simp: is_space_def is_json_ws_def)

lemma run_spaces_value:
  "\<forall>c \<in> set w. is_space c \<Longrightarrow> fst st = MFail \<or> fst st = MValue \<Longrightarrow>
   fst (foldl step st w) = MFail \<or> fst (foldl step st w) = MValue"
proof (induction w arbitrary: st)
  case Nil
  then show ?case by simp
next
  case (Cons c w)
  obtain m stk res where st: "st = (m, stk, res)" by (cases st) auto
  from Cons.prems(1) have "is_space c" by simp
  from is_space_cases [OF this] Cons.prems(2)
  have "fst (step st c) = MFail \<or> fst (step st c) = MValue"
    by (auto simp: st start_value_def is_json_ws_def is_digit_def)
  with Cons show ?case by simp
qed

lemma step_quote_value:
  "fst st = MFail \<or> fst st = MValue \<Longrightarrow>
   fst (step st (CHR 0x22)) = MFail \<or> in_value_string (fst (step st (CHR 0x22)))"
proof -
  assume h: "fst st = MFail \<or> fst st = MValue"
  obtain m stk res where st: "st = (m, stk, res)" by (cases st) auto
  from h show ?thesis
    by (auto simp: st start_value_def is_json_ws_def in_value_string_def)
qed

lemma step_inside_value_string:
  "c \<noteq> CHR 0x22 \<Longrightarrow> fst st = MFail \<or> in_value_string (fst st) \<Longrightarrow>
   fst (step st c) = MFail \<or> in_value_string (fst (step st c))"
proof -
  assume c: "c \<noteq> CHR 0x22" and h: "fst st = MFail \<or> in_value_string (fst st)"
  obtain m stk res where st: "st = (m, stk, res)" by (cases st) auto
  from h c show ?thesis
    by (cases m) (auto simp: st in_value_string_def split: option.splits)
qed

lemma run_inside_value_string:
  "\<forall>c \<in> set x. c \<noteq> CHR 0x22 \<Longrightarrow> fst st = MFail \<or> in_value_string (fst st) \<Longrightarrow>
   fst (foldl step st x) = MFail \<or> in_value_string (fst (foldl step st x))"
proof (induction x arbitrary: st)
  case Nil
  then show ?case by simp
next
  case (Cons c x)
  from Cons.prems have "fst (step st c) = MFail \<or> in_value_string (fst (step st c))"
    using step_inside_value_string [of c st] by simp
  with Cons show ?case by simp
qed

definition after_or_value_text :: "mode \<Rightarrow> bool" where
  "after_or_value_text m = (case m of MAfter \<Rightarrow> True | MFail \<Rightarrow> True | MStr k a \<Rightarrow> \<not> k | _ \<Rightarrow> False)"

lemma step_quote_in_value_string:
  "fst st = MFail \<or> in_value_string (fst st) \<Longrightarrow>
   after_or_value_text (fst (step st (CHR 0x22)))"
proof -
  assume h: "fst st = MFail \<or> in_value_string (fst st)"
  obtain m stk res where st: "st = (m, stk, res)" by (cases st) auto
  from h show ?thesis
  proof (cases m)
    case (MStr k a)
    with h st have "\<not> k" by (simp add: in_value_string_def)
    with MStr st fst_end_string_value [of a stk] show ?thesis
      by (auto simp: after_or_value_text_def)
  qed (auto simp: st in_value_string_def after_or_value_text_def unescape_def hex_val_def)
qed

lemma step_space_after_or_value_text:
  "is_space c \<Longrightarrow> after_or_value_text (fst st) \<Longrightarrow> after_or_value_text (fst (step st c))"
proof -
  assume c: "is_space c" and h: "after_or_value_text (fst st)"
  obtain m stk res where st: "st = (m, stk, res)" by (cases st) auto
  from is_space_cases [OF c] h show ?thesis
    by (cases m) (auto simp: st after_or_value_text_def after_value_def is_json_ws_def)
qed

lemma run_spaces_after_or_value_text:
  "\<forall>c \<in> set w. is_space c \<Longrightarrow> after_or_value_text (fst st) \<Longrightarrow>
   after_or_value_text (fst (foldl step st w))"
  by (induction w arbitrary: st) (simp_all add: step_space_after_or_value_text)

lemma step_quote_after_or_value_text:
  "after_or_value_text (fst st) \<Longrightarrow>
   fst (step st (CHR 0x22)) = MFail \<or> fst (step st (CHR 0x22)) = MAfter"
proof -
  assume h: "after_or_value_text (fst st)"
  obtain m stk res where st: "st = (m, stk, res)" by (cases st) auto
  from h show ?thesis
  proof (cases m)
    case (MStr k a)
    with h st have "\<not> k" by (simp add: after_or_value_text_def)
    with MStr st fst_end_string_value [of a stk] show ?thesis by auto
  qed (auto simp: st after_or_value_text_def after_value_def is_json_ws_def)
qed

lemma run_steps_key:
  "after_or_value_text (fst st) \<Longrightarrow> fst (foldl step st steps_key) = MFail"
proof -
  assume h: "after_or_value_text (fst st)"
  let ?s1 = "step st (CHR 0x22)"
  have split: "foldl step st steps_key = foldl step (step ?s1 (CHR ''s'')) ''teps\"''"
    by (simp add: steps_key_def)
  from step_quote_after_or_value_text [OF h]
  have "fst (step ?s1 (CHR ''s'')) = MFail" using step_letter_outside by blast
  then show ?thesis unfolding split by (rule run_fail)
qed

lemma run_defect:
  assumes w1: "\<forall>c \<in> set w1. is_space c" and w2: "\<forall>c \<in> set w2. is_space c"
    and x: "\<forall>c \<in> set x. c \<noteq> CHR 0x22"
  shows "fst (foldl step st (defect_head @ w1 @ [CHR 0x22] @ x @ [CHR 0x22] @ w2 @ steps_key))
         = MFail"
proof -
  let ?a = "foldl step st defect_head"
  let ?b = "foldl step ?a w1"
  let ?c = "step ?b (CHR 0x22)"
  let ?d = "foldl step ?c x"
  let ?e = "step ?d (CHR 0x22)"
  let ?f = "foldl step ?e w2"
  have a: "fst ?a = MFail \<or> fst ?a = MValue" by (rule run_defect_head)
  have b: "fst ?b = MFail \<or> fst ?b = MValue" by (rule run_spaces_value [OF w1 a])
  have c: "fst ?c = MFail \<or> in_value_string (fst ?c)" by (rule step_quote_value [OF b])
  have d: "fst ?d = MFail \<or> in_value_string (fst ?d)" by (rule run_inside_value_string [OF x c])
  have e: "after_or_value_text (fst ?e)" by (rule step_quote_in_value_string [OF d])
  have f: "after_or_value_text (fst ?f)" by (rule run_spaces_after_or_value_text [OF w2 e])
  have "fst (foldl step ?f steps_key) = MFail" by (rule run_steps_key [OF f])
  then show ?thesis by simp
qed

lemma startsWith_append: "startsWith s p \<Longrightarrow> s = p @ drop (length p) s"
  by (metis append_take_drop_id startsWith_def)

lemma startsWith_prefix [simp]: "startsWith (p @ r) p"
  by (simp add: startsWith_def)

lemma dropWhile_split:
  assumes "dropWhile P xs = y # ys"
  shows "xs = takeWhile P xs @ y # ys \<and> \<not> P y"
proof -
  have "takeWhile P xs @ dropWhile P xs = xs" by (rule takeWhile_dropWhile_id)
  then have a: "xs = takeWhile P xs @ y # ys" unfolding assms by (rule sym)
  have "dropWhile P xs \<noteq> []" unfolding assms by simp
  then have "\<not> P (hd (dropWhile P xs))" by (rule hd_dropWhile)
  then have "\<not> P y" unfolding assms by simp
  with a show ?thesis by (rule conjI)
qed

lemma match_defect_shape:
  assumes "match_defect s = Some (x, n)"
  shows "\<exists>w1 w2 r. s = defect_head @ w1 @ [CHR 0x22] @ x @ [CHR 0x22] @ w2 @ steps_key @ r
           \<and> n = length (defect_head @ w1 @ [CHR 0x22] @ x @ [CHR 0x22] @ w2 @ steps_key)
           \<and> (\<forall>c \<in> set w1. is_space c) \<and> (\<forall>c \<in> set w2. is_space c)
           \<and> (\<forall>c \<in> set x. c \<noteq> CHR 0x22)"
proof -
  define r1 where "r1 = drop (length defect_head) s"
  define w1 where "w1 = takeWhile is_space r1"
  have sw: "startsWith s defect_head"
  proof (rule ccontr)
    assume "\<not> startsWith s defect_head"
    then have "match_defect s = None" by (simp add: match_defect_def)
    with assms show False by simp
  qed
  then have s1: "s = defect_head @ r1" unfolding r1_def by (rule startsWith_append)
  have unf1: "match_defect s =
     (case dropWhile is_space r1 of
             [] \<Rightarrow> None
           | q # r3 \<Rightarrow>
               if q \<noteq> CHR 0x22 then None
               else case dropWhile (\<lambda>c. c \<noteq> CHR 0x22) r3 of
                      [] \<Rightarrow> None
                    | q' # r5 \<Rightarrow>
                        if startsWith (dropWhile is_space r5) steps_key
                        then Some (takeWhile (\<lambda>c. c \<noteq> CHR 0x22) r3,
                                   length s - length (dropWhile is_space r5) + length steps_key)
                        else None)"
    unfolding r1_def match_defect_def using sw by (simp only: not_True_eq_False if_False)
  obtain q r3 where r2: "dropWhile is_space r1 = q # r3"
  proof (cases "dropWhile is_space r1")
    case Nil
    have "match_defect s = None" unfolding unf1 Nil by simp
    with assms show ?thesis by simp
  next
    case (Cons q r3)
    with that show ?thesis .
  qed
  have q: "q = CHR 0x22"
  proof (rule ccontr)
    assume "q \<noteq> CHR 0x22"
    then have "match_defect s = None" unfolding unf1 r2 by simp
    with assms show False by simp
  qed
  have unf2: "match_defect s =
     (case dropWhile (\<lambda>c. c \<noteq> CHR 0x22) r3 of
                      [] \<Rightarrow> None
                    | q' # r5 \<Rightarrow>
                        if startsWith (dropWhile is_space r5) steps_key
                        then Some (takeWhile (\<lambda>c. c \<noteq> CHR 0x22) r3,
                                   length s - length (dropWhile is_space r5) + length steps_key)
                        else None)"
    unfolding unf1 r2 q by simp
  define xx where "xx = takeWhile (\<lambda>c. c \<noteq> CHR 0x22) r3"
  obtain q' r5 where r4: "dropWhile (\<lambda>c. c \<noteq> CHR 0x22) r3 = q' # r5"
  proof (cases "dropWhile (\<lambda>c. c \<noteq> CHR 0x22) r3")
    case Nil
    have "match_defect s = None" unfolding unf2 Nil by simp
    with assms show ?thesis by simp
  next
    case (Cons q' r5)
    with that show ?thesis .
  qed
  have q': "q' = CHR 0x22" using dropWhile_split [OF r4] by simp
  define w2 where "w2 = takeWhile is_space r5"
  define r6 where "r6 = dropWhile is_space r5"
  have unf: "match_defect s =
      (if startsWith r6 steps_key
       then Some (xx, length s - length r6 + length steps_key) else None)"
    unfolding unf2 r4 r6_def xx_def by simp
  have sk: "startsWith r6 steps_key"
  proof (rule ccontr)
    assume "\<not> startsWith r6 steps_key"
    with unf have "match_defect s = None" by simp
    with assms show False by simp
  qed
  with unf assms have x: "x = xx" and n: "n = length s - length r6 + length steps_key"
    by simp_all
  define r where "r = drop (length steps_key) r6"
  have r6: "r6 = steps_key @ r" unfolding r_def using sk by (rule startsWith_append)
  have a: "r1 = w1 @ CHR 0x22 # r3"
    unfolding w1_def using dropWhile_split [OF r2] q by simp
  have b: "r3 = xx @ CHR 0x22 # r5"
    unfolding xx_def using dropWhile_split [OF r4] q' by simp
  have c: "r5 = w2 @ steps_key @ r"
  proof -
    have "takeWhile is_space r5 @ dropWhile is_space r5 = r5" by (rule takeWhile_dropWhile_id)
    then show ?thesis unfolding w2_def [symmetric] r6_def [symmetric] r6 by (rule sym)
  qed
  have s: "s = defect_head @ w1 @ [CHR 0x22] @ x @ [CHR 0x22] @ w2 @ steps_key @ r"
    unfolding s1 a x by (subst b, subst c) simp
  have "length s = length (defect_head @ w1 @ [CHR 0x22] @ x @ [CHR 0x22] @ w2 @ steps_key)
                     + length r"
    by (subst s) simp
  moreover have "length r6 = length steps_key + length r" by (subst r6) simp
  ultimately
  have len: "n = length (defect_head @ w1 @ [CHR 0x22] @ x @ [CHR 0x22] @ w2 @ steps_key)"
    using n by simp
  have sp1: "\<forall>c \<in> set w1. is_space c" unfolding w1_def by (auto dest: set_takeWhileD)
  have sp2: "\<forall>c \<in> set w2. is_space c" unfolding w2_def by (auto dest: set_takeWhileD)
  have xq: "\<forall>c \<in> set x. c \<noteq> CHR 0x22" unfolding x xx_def by (auto dest: set_takeWhileD)
  show ?thesis
    by (rule exI [of _ w1], rule exI [of _ w2], rule exI [of _ r], intro conjI)
       (rule s len sp1 sp2 xq)+
qed

lemma match_defect_fails:
  assumes "match_defect s = Some (x, n)"
  shows "fst (foldl step st s) = MFail"
proof -
  from match_defect_shape [OF assms] obtain w1 w2 r where
    s: "s = (defect_head @ w1 @ [CHR 0x22] @ x @ [CHR 0x22] @ w2 @ steps_key) @ r"
    and w: "\<forall>c \<in> set w1. is_space c" "\<forall>c \<in> set w2. is_space c" "\<forall>c \<in> set x. c \<noteq> CHR 0x22"
    by auto
  have "fst (foldl step st (defect_head @ w1 @ [CHR 0x22] @ x @ [CHR 0x22] @ w2 @ steps_key))
        = MFail" by (rule run_defect [OF w])
  then have "fst (foldl step (foldl step st
        (defect_head @ w1 @ [CHR 0x22] @ x @ [CHR 0x22] @ w2 @ steps_key)) r) = MFail"
    by (rule run_fail)
  then show ?thesis by (subst s) (simp only: foldl_append)
qed

lemma accepted_no_defect: "finish (foldl step st s) \<noteq> None \<Longrightarrow> fix_from 0 s = s"
proof (induction s arbitrary: st)
  case Nil
  show ?case by simp
next
  case (Cons c cs)
  have m: "match_defect (c # cs) = None"
  proof (cases "match_defect (c # cs)")
    case None
    then show ?thesis .
  next
    case (Some xn)
    obtain x n where "xn = (x, n)" by (cases xn) auto
    with Some have "fst (foldl step st (c # cs)) = MFail" using match_defect_fails by blast
    then have "finish (foldl step st (c # cs)) = None" by (rule finish_fail)
    with Cons.prems show ?thesis by simp
  qed
  from Cons.prems have "finish (foldl step (step st c) cs) \<noteq> None" by simp
  then have "fix_from 0 cs = cs" by (rule Cons.IH)
  with m show ?case by simp
qed

lemma JSON_parse_no_defect: "JSON_parse s = Some v \<Longrightarrow> fix_missing_comma s = s"
  unfolding JSON_parse_def fix_missing_comma_def
  using accepted_no_defect [of "(MValue, [], None)" s] by simp

subsection \<open>White space around accepted JSON text\<close>

lemma is_space_enum:
  "is_space c \<Longrightarrow>
   c = CHR 0x09 \<or> c = CHR 0x0A \<or> c = CHR 0x0B \<or> c = CHR 0x0C \<or> c = CHR 0x0D
   \<or> c = CHR 0x20 \<or> c = CHR 0xA0"
  by (simp add: is_space_def)

lemma space_not_token:
  assumes "is_space c"
  shows "c \<noteq> CHR 0x22" "c \<noteq> CHR '',''" "c \<noteq> CHR '']''" "c \<noteq> CHR ''}''"
    "c \<noteq> CHR ''{''" "c \<noteq> CHR ''[''" "c \<noteq> CHR '':''" "c \<noteq> CHR 0x5C" "c \<noteq> CHR ''u''"
    "\<not> is_digit c" "c \<noteq> CHR ''-''" "c \<noteq> CHR ''t''" "c \<noteq> CHR ''f''" "c \<noteq> CHR ''n''"
    "c \<noteq> CHR ''0''" "unescape c = None" "hex_val c = None"
  using is_space_enum [OF assms]
  by (elim disjE; simp add: is_digit_def unescape_def hex_val_def)+

lemma num_step_space:
  assumes "is_space c"
  shows "num_step ns c = None"
  using is_space_enum [OF assms] by (cases ns; elim disjE; simp add: is_digit_def)

lemma lit_expect_space:
  assumes "is_space c"
  shows "c \<noteq> lit_expect l"
  using is_space_enum [OF assms] by (cases l; elim disjE; simp)

lemma start_value_space:
  assumes "is_space c"
  shows "start_value c stk = failed"
  by (simp add: start_value_def space_not_token [OF assms])

lemma after_value_space:
  assumes "is_space c"
  shows "after_value c stk res = (if is_json_ws c then (MAfter, stk, res) else failed)"
  by (simp add: after_value_def space_not_token [OF assms])

lemma finish_deliver: "finish (deliver v stk) = (if stk = [] then Some v else None)"
  by (cases "(v, stk)" rule: deliver.cases) simp_all

lemma step_num_space:
  assumes c: "is_space c"
  shows "finish (step (MNum ns lit, stk, res) c) = Some v \<Longrightarrow>
         finish (MNum ns lit, stk, res) = Some v"
proof -
  assume f: "finish (step (MNum ns lit, stk, res) c) = Some v"
  obtain m' s' r' where d: "deliver (JNum lit) stk = (m', s', r')"
    by (cases "deliver (JNum lit) stk") auto
  have fin: "num_final ns"
  proof (rule ccontr)
    assume "\<not> num_final ns"
    then have "step (MNum ns lit, stk, res) c = failed" by (simp add: num_step_space [OF c])
    with f show False by simp
  qed
  have m': "m' = MAfter"
  proof (rule ccontr)
    assume "m' \<noteq> MAfter"
    then have "step (MNum ns lit, stk, res) c = failed"
      by (cases m') (simp_all add: num_step_space [OF c] fin d)
    with f show False by simp
  qed
  have "step (MNum ns lit, stk, res) c = after_value c s' r'"
    by (simp add: num_step_space [OF c] fin d m')
  with f have "finish (if is_json_ws c then (MAfter, s', r') else failed) = Some v"
    by (simp add: after_value_space [OF c])
  then have "finish (MAfter, s', r') = Some v" by (simp split: if_splits)
  then have "finish (deliver (JNum lit) stk) = Some v" by (simp add: d m')
  then have "stk = [] \<and> JNum lit = v" by (simp add: finish_deliver split: if_splits)
  with fin show ?thesis by simp
qed

lemma step_space_finish:
  "is_space c \<Longrightarrow> finish (step st c) = Some v \<Longrightarrow> finish st = Some v"
proof -
  assume c: "is_space c" and f: "finish (step st c) = Some v"
  obtain m stk res where st: "st = (m, stk, res)" by (cases st) auto
  note nt = space_not_token [OF c]
  show ?thesis
  proof (cases m)
    case MValue
    with f show ?thesis by (simp add: st start_value_space [OF c] split: if_splits)
  next
    case MValueOrEnd
    with f show ?thesis by (simp add: st start_value_space [OF c] nt split: if_splits)
  next
    case MKeyOrEnd
    with f show ?thesis by (simp add: st nt split: if_splits)
  next
    case MKey
    with f show ?thesis by (simp add: st nt split: if_splits)
  next
    case MColon
    with f show ?thesis by (simp add: st nt split: if_splits)
  next
    case MAfter
    with f show ?thesis by (simp add: st after_value_space [OF c] split: if_splits)
  next
    case (MStr k a)
    with f show ?thesis by (simp add: st nt split: if_splits)
  next
    case (MEsc k a)
    with f show ?thesis by (simp add: st nt split: if_splits)
  next
    case (MUni k a d)
    with f show ?thesis by (simp add: st nt split: if_splits)
  next
    case (MNum ns lit)
    with f show ?thesis using step_num_space [OF c] by (simp add: st)
  next
    case (MLit l)
    with f show ?thesis by (simp add: st lit_expect_space [OF c])
  next
    case MFail
    with f show ?thesis by (simp add: st)
  qed
qed

lemma run_spaces_finish:
  "\<forall>c \<in> set w. is_space c \<Longrightarrow> finish (foldl step st w) = Some v \<Longrightarrow> finish st = Some v"
proof (induction w arbitrary: st)
  case Nil
  then show ?case by simp
next
  case (Cons c w)
  from Cons.prems have c: "is_space c" and w: "\<forall>c \<in> set w. is_space c"
    and f: "finish (foldl step (step st c) w) = Some v" by simp_all
  from Cons.IH [OF w f] have "finish (step st c) = Some v" .
  with c show ?case by (rule step_space_finish)
qed

lemma step_space_initial:
  "is_space c \<Longrightarrow> finish (foldl step (step (MValue, [], None) c) s) = Some v \<Longrightarrow>
   step (MValue, [], None) c = (MValue, [], None)"
proof -
  assume c: "is_space c" and f: "finish (foldl step (step (MValue, [], None) c) s) = Some v"
  show ?thesis
  proof (cases "is_json_ws c")
    case True
    then show ?thesis by simp
  next
    case False
    then have "fst (step (MValue, [], None) c) = MFail"
      by (simp add: start_value_space [OF c])
    then have "finish (foldl step (step (MValue, [], None) c) s) = None"
      using run_fail finish_fail by blast
    with f show ?thesis by simp
  qed
qed

lemma JSON_parse_dropWhile:
  "JSON_parse s = Some v \<Longrightarrow> JSON_parse (dropWhile is_space s) = Some v"
proof (induction s)
  case Nil
  then show ?case by simp
next
  case (Cons c s)
  show ?case
  proof (cases "is_space c")
    case True
    from Cons.prems have f: "finish (foldl step (step (MValue, [], None) c) s) = Some v"
      by (simp add: JSON_parse_def)
    from step_space_initial [OF True f] f have "JSON_parse s = Some v"
      by (simp add: JSON_parse_def)
    with Cons.IH True show ?thesis by simp
  next
    case False
    with Cons.prems show ?thesis by simp
  qed
qed

lemma JSON_parse_drop_trailing:
  "JSON_parse s = Some v \<Longrightarrow> JSON_parse (rev (dropWhile is_space (rev s))) = Some v"
proof -
  assume p: "JSON_parse s = Some v"
  let ?w = "rev (takeWhile is_space (rev s))"
  let ?core = "rev (dropWhile is_space (rev s))"
  have s: "s = ?core @ ?w"
    by (metis rev_append rev_rev_ident takeWhile_dropWhile_id)
  have w: "\<forall>c \<in> set ?w. is_space c" by (auto dest: set_takeWhileD)
  from p have "finish (foldl step (foldl step (MValue, [], None) ?core) ?w) = Some v"
    unfolding JSON_parse_def by (subst (asm) s) (simp only: foldl_append)
  from run_spaces_finish [OF w this] show ?thesis by (simp add: JSON_parse_def)
qed

lemma JSON_parse_trim: "JSON_parse s = Some v \<Longrightarrow> JSON_parse (trim s) = Some v"
proof -
  assume "JSON_parse s = Some v"
  then have "JSON_parse (dropWhile is_space s) = Some v" by (rule JSON_parse_dropWhile)
  then have "JSON_parse (rev (dropWhile is_space (rev (dropWhile is_space s)))) = Some v"
    by (rule JSON_parse_drop_trailing)
  then show ?thesis by (simp only: trim_def)
qed

subsection \<open>Fenced JSON text\<close>

lemma fence_not_space: "fence = c # r \<Longrightarrow> \<not> is_space c"
  by (auto simp: fence_def is_space_def)

lemma dropWhile_spaces_prefix:
  "\<forall>c \<in> set w. is_space c \<Longrightarrow> dropWhile is_space (w @ s) = dropWhile is_space s"
  by (simp add: dropWhile_append2)

lemma dropWhile_spaces_rev_prefix:
  "\<forall>c \<in> set w. is_space c \<Longrightarrow> dropWhile is_space (rev w @ s) = dropWhile is_space s"
  by (rule dropWhile_spaces_prefix) simp

lemma trim_core:
  assumes ne: "core \<noteq> []" and h: "\<not> is_space (hd core)" and l: "\<not> is_space (last core)"
    and w0: "\<forall>c \<in> set w0. is_space c" and w3: "\<forall>c \<in> set w3. is_space c"
  shows "trim (w0 @ core @ w3) = core"
proof -
  from ne h have d: "dropWhile is_space (core @ w3) = core @ w3" by (cases core) simp_all
  have a: "dropWhile is_space (w0 @ core @ w3) = core @ w3"
    using dropWhile_spaces_prefix [OF w0, of "core @ w3"] d by simp
  from ne l have e: "dropWhile is_space (rev core) = rev core"
    by (cases "rev core") (simp_all add: hd_rev)
  have "dropWhile is_space (rev (core @ w3)) = dropWhile is_space (rev w3 @ rev core)" by simp
  also have "\<dots> = dropWhile is_space (rev core)" using w3 by (rule dropWhile_spaces_rev_prefix)
  also have "\<dots> = rev core" by (rule e)
  finally have "rev (dropWhile is_space (rev (core @ w3))) = core" by simp
  with a show ?thesis by (simp add: trim_def)
qed

lemma trim_fenced:
  assumes w0: "\<forall>c \<in> set w0. is_space c" and w3: "\<forall>c \<in> set w3. is_space c"
  shows "trim (w0 @ fence @ m @ fence @ w3) = fence @ m @ fence"
proof -
  have ns: "\<not> is_space (CHR 0x60)" by (simp add: is_space_def)
  have ne: "fence @ m @ fence \<noteq> []" by (simp add: fence_def)
  have h: "\<not> is_space (hd (fence @ m @ fence))" using ns by (simp add: fence_def)
  have l: "\<not> is_space (last (fence @ m @ fence))" using ns by (simp add: fence_def)
  from trim_core [OF ne h l w0 w3] show ?thesis by simp
qed

lemma parse_nonempty: "JSON_parse s = Some v \<Longrightarrow> \<exists>c \<in> set s. \<not> is_space c"
proof (rule ccontr)
  assume p: "JSON_parse s = Some v" and "\<not> (\<exists>c \<in> set s. \<not> is_space c)"
  then have "dropWhile is_space s = []" by simp
  with JSON_parse_dropWhile [OF p] show False by (simp add: JSON_parse_def)
qed

lemma json_tag_hd: "json_tag (a # r) \<Longrightarrow> a = CHR ''j'' \<or> a = CHR ''J''"
  by (simp add: json_tag_def split: list.splits)

lemma step_initial_j:
  "c = CHR ''j'' \<or> c = CHR ''J'' \<Longrightarrow> fst (step (MValue, [], None) c) = MFail"
  by (elim disjE; simp add: start_value_def is_json_ws_def is_digit_def)

lemma parse_not_tag:
  assumes p: "JSON_parse J = Some v" and w: "\<forall>c \<in> set w. is_space c"
  shows "\<not> json_tag (take 4 (w @ J @ r))"
proof -
  from parse_nonempty [OF p] obtain c J' where J: "J = c # J'" by (cases J) auto
  have hd: "\<exists>c0 t. w @ J @ r = c0 # t \<and> \<not> (c0 = CHR ''j'' \<or> c0 = CHR ''J'')"
  proof (cases w)
    case Nil
    have "\<not> (c = CHR ''j'' \<or> c = CHR ''J'')"
    proof
      assume "c = CHR ''j'' \<or> c = CHR ''J''"
      then have "fst (step (MValue, [], None) c) = MFail" by (rule step_initial_j)
      then have "fst (foldl step (step (MValue, [], None) c) J') = MFail" by (rule run_fail)
      then have "finish (foldl step (step (MValue, [], None) c) J') = None" by (rule finish_fail)
      with p show False unfolding J by (simp add: JSON_parse_def)
    qed
    then show ?thesis unfolding Nil J by simp
  next
    case (Cons c0 w')
    with w have "is_space c0" by simp
    from is_space_enum [OF this] have "\<not> (c0 = CHR ''j'' \<or> c0 = CHR ''J'')"
      by (elim disjE; simp)
    then show ?thesis unfolding Cons by simp
  qed
  then obtain c0 t where e: "w @ J @ r = c0 # t" and c0: "\<not> (c0 = CHR ''j'' \<or> c0 = CHR ''J'')"
    by blast
  have "take 4 (c0 # t) = c0 # take 3 t" by simp
  then show ?thesis unfolding e using c0 json_tag_hd [of c0 "take 3 t"] by auto
qed

lemma json_tag_length: "json_tag t \<Longrightarrow> length t = 4"
  by (auto simp: json_tag_def split: list.splits)

lemma strip_fences:
  assumes p: "JSON_parse J = Some v"
    and t: "tag = [] \<or> json_tag tag"
    and w1: "\<forall>c \<in> set w1. is_space c" and w2: "\<forall>c \<in> set w2. is_space c"
  shows "strip_trailing_fence (strip_leading_fence (fence @ tag @ w1 @ J @ w2 @ fence)) = trim J"
proof -
  let ?rest = "w1 @ J @ w2 @ fence"
  have l3: "length fence = 3" by (simp add: fence_def)
  have tagged: "(if json_tag (take 4 (tag @ ?rest)) then drop 4 (tag @ ?rest) else tag @ ?rest)
                = ?rest"
  proof (cases "tag = []")
    case True
    then show ?thesis using parse_not_tag [OF p w1, of "w2 @ fence"] by simp
  next
    case False
    with t have jt: "json_tag tag" by simp
    then have "length tag = 4" by (rule json_tag_length)
    with jt show ?thesis by simp
  qed
  have lead: "strip_leading_fence (fence @ tag @ ?rest) = dropWhile is_space ?rest"
    unfolding strip_leading_fence_def using tagged by (simp add: Let_def)
  from parse_nonempty [OF p] obtain c where c: "c \<in> set J" "\<not> is_space c" by blast
  have "dropWhile is_space ?rest = dropWhile is_space (J @ w2 @ fence)"
    using w1 by (rule dropWhile_spaces_prefix)
  also have "\<dots> = dropWhile is_space J @ w2 @ fence"
    using c by (simp add: dropWhile_append1)
  finally have lead': "strip_leading_fence (fence @ tag @ ?rest)
                       = (dropWhile is_space J @ w2) @ fence"
    using lead by simp
  have ew: "endsWith ((dropWhile is_space J @ w2) @ fence) fence"
    by (simp add: endsWith_def)
  have "strip_trailing_fence ((dropWhile is_space J @ w2) @ fence)
        = rev (dropWhile is_space (rev (dropWhile is_space J @ w2)))"
    unfolding strip_trailing_fence_def using ew by simp
  also have "\<dots> = rev (dropWhile is_space (rev w2 @ rev (dropWhile is_space J)))" by simp
  also have "\<dots> = rev (dropWhile is_space (rev (dropWhile is_space J)))"
    using dropWhile_spaces_rev_prefix [OF w2] by simp
  finally show ?thesis unfolding lead' by (simp add: trim_def)
qed

lemma clean_fenced:
  assumes p: "JSON_parse J = Some v"
    and t: "tag = [] \<or> json_tag tag"
    and w0: "\<forall>c \<in> set w0. is_space c" and w1: "\<forall>c \<in> set w1. is_space c"
    and w2: "\<forall>c \<in> set w2. is_space c" and w3: "\<forall>c \<in> set w3. is_space c"
  shows "cleanLLMJsonResponse (w0 @ fence @ tag @ w1 @ J @ w2 @ fence @ w3) = trim J"
proof -
  have tr: "trim (w0 @ fence @ (tag @ w1 @ J @ w2) @ fence @ w3)
            = fence @ (tag @ w1 @ J @ w2) @ fence"
    using w0 w3 by (rule trim_fenced)
  have sw: "startsWith (fence @ (tag @ w1 @ J @ w2) @ fence) fence" by simp
  have st: "strip_trailing_fence (strip_leading_fence (fence @ (tag @ w1 @ J @ w2) @ fence))
            = trim J"
    using strip_fences [OF p t w1 w2] by simp
  have "JSON_parse (trim J) = Some v" using p by (rule JSON_parse_trim)
  then have fx: "fix_missing_comma (trim J) = trim J" by (rule JSON_parse_no_defect)
  have "cleanLLMJsonResponse (w0 @ fence @ (tag @ w1 @ J @ w2) @ fence @ w3) = trim J"
    unfolding cleanLLMJsonResponse_def Let_def tr using sw st fx by simp
  then show ?thesis by simp
qed

lemma clean_plain:
  assumes p: "JSON_parse J = Some v"
  shows "cleanLLMJsonResponse J = trim J"
proof -
  have pt: "JSON_parse (trim J) = Some v" using p by (rule JSON_parse_trim)
  then have fx: "fix_missing_comma (trim J) = trim J" by (rule JSON_parse_no_defect)
  have "\<not> startsWith (trim J) fence"
  proof
    assume "startsWith (trim J) fence"
    then have "trim J = fence @ drop (length fence) (trim J)" by (rule startsWith_append)
    then obtain r where "trim J = CHR 0x60 # r" by (simp add: fence_def)
    with pt have "finish (foldl step (step (MValue, [], None) (CHR 0x60)) r) = Some v"
      by (simp add: JSON_parse_def)
    moreover have "fst (step (MValue, [], None) (CHR 0x60)) = MFail"
      by (simp add: start_value_def is_json_ws_def is_digit_def)
    then have "fst (foldl step (step (MValue, [], None) (CHR 0x60)) r) = MFail" by (rule run_fail)
    then have "finish (foldl step (step (MValue, [], None) (CHR 0x60)) r) = None"
      by (rule finish_fail)
    ultimately show False by simp
  qed
  with fx show ?thesis by (simp add: cleanLLMJsonResponse_def Let_def)
qed

subsection \<open>The missing-comma rewrite\<close>

lemma dropWhile_stop: "\<not> P y \<Longrightarrow> \<forall>c \<in> set w. P c \<Longrightarrow> dropWhile P (w @ y # r) = y # r"
  by (simp add: dropWhile_append2)

lemma takeWhile_stop: "\<not> P y \<Longrightarrow> \<forall>c \<in> set w. P c \<Longrightarrow> takeWhile P (w @ y # r) = w"
  by (simp add: takeWhile_append2)

lemma steps_key_Cons: "steps_key = CHR 0x22 # ''steps\"''"
  by (simp add: steps_key_def)

lemma quote_not_space: "\<not> is_space (CHR 0x22)"
  by (simp add: is_space_def)

lemma match_defect_at:
  assumes w1: "\<forall>c \<in> set w1. is_space c" and w2: "\<forall>c \<in> set w2. is_space c"
    and x: "\<forall>c \<in> set x. c \<noteq> CHR 0x22"
  shows "match_defect (defect_head @ w1 @ [CHR 0x22] @ x @ [CHR 0x22] @ w2 @ steps_key @ r)
         = Some (x, length (defect_head @ w1 @ [CHR 0x22] @ x @ [CHR 0x22] @ w2 @ steps_key))"
proof -
  let ?s = "defect_head @ w1 @ [CHR 0x22] @ x @ [CHR 0x22] @ w2 @ steps_key @ r"
  have sw: "startsWith ?s defect_head" by simp
  have d1: "drop (length defect_head) ?s = w1 @ CHR 0x22 # (x @ CHR 0x22 # w2 @ steps_key @ r)"
    by simp
  have d2: "dropWhile is_space (w1 @ CHR 0x22 # (x @ CHR 0x22 # w2 @ steps_key @ r))
            = CHR 0x22 # (x @ CHR 0x22 # w2 @ steps_key @ r)"
    using quote_not_space w1 by (rule dropWhile_stop)
  have d3: "dropWhile (\<lambda>c. c \<noteq> CHR 0x22) (x @ CHR 0x22 # w2 @ steps_key @ r)
            = CHR 0x22 # w2 @ steps_key @ r"
    by (rule dropWhile_stop) (use x in simp_all)
  have t3: "takeWhile (\<lambda>c. c \<noteq> CHR 0x22) (x @ CHR 0x22 # w2 @ steps_key @ r) = x"
    by (rule takeWhile_stop) (use x in simp_all)
  have d4: "dropWhile is_space (w2 @ steps_key @ r) = steps_key @ r"
    unfolding steps_key_Cons append_Cons using quote_not_space w2 by (rule dropWhile_stop)
  have sk: "startsWith (steps_key @ r) steps_key" by simp
  have len: "length ?s - length (steps_key @ r) + length steps_key
             = length (defect_head @ w1 @ [CHR 0x22] @ x @ [CHR 0x22] @ w2 @ steps_key)"
    by simp
  show ?thesis
    unfolding match_defect_def using sw
    by (simp only: d1 d2 d3 t3 d4 sk len not_True_eq_False if_False if_True list.case
          not_not refl)
qed

lemma fix_from_skip: "fix_from (length a) (a @ b) = fix_from 0 b"
  by (induction a) simp_all

lemma defect_head_Cons: "defect_head = CHR 0x22 # ''preconditions\":''"
  by (simp add: defect_head_def)

lemma fix_defect:
  assumes w1: "\<forall>c \<in> set w1. is_space c" and w2: "\<forall>c \<in> set w2. is_space c"
    and x: "\<forall>c \<in> set x. c \<noteq> CHR 0x22"
  shows "fix_from 0 (defect_head @ w1 @ [CHR 0x22] @ x @ [CHR 0x22] @ w2 @ steps_key @ r)
         = defect_replacement x @ fix_from 0 r"
proof -
  let ?tl = "''preconditions\":'' @ w1 @ [CHR 0x22] @ x @ [CHR 0x22] @ w2 @ steps_key"
  have e: "defect_head @ w1 @ [CHR 0x22] @ x @ [CHR 0x22] @ w2 @ steps_key @ r
           = CHR 0x22 # (?tl @ r)"
    by (simp add: defect_head_Cons)
  have m: "match_defect (CHR 0x22 # (?tl @ r)) = Some (x, Suc (length ?tl))"
    using match_defect_at [OF w1 w2 x, of r] unfolding e by (simp add: defect_head_Cons)
  have "fix_from 0 (CHR 0x22 # (?tl @ r)) = defect_replacement x @ fix_from (length ?tl) (?tl @ r)"
    by (simp only: fix_from.simps m option.case prod.case diff_Suc_1)
  also have "\<dots> = defect_replacement x @ fix_from 0 r" by (simp only: fix_from_skip)
  finally show ?thesis unfolding e .
qed

lemma fix_prefix:
  "\<forall>i < length pre. match_defect (drop i (pre @ t)) = None \<Longrightarrow>
   fix_from 0 (pre @ t) = pre @ fix_from 0 t"
proof (induction pre)
  case Nil
  show ?case by simp
next
  case (Cons c pre)
  from Cons.prems have "match_defect (drop 0 ((c # pre) @ t)) = None" by blast
  then have m: "match_defect (c # pre @ t) = None" by simp
  have "\<forall>i < length pre. match_defect (drop i (pre @ t)) = None"
  proof (intro allI impI)
    fix i assume "i < length pre"
    then have "Suc i < length (c # pre)" by simp
    with Cons.prems have "match_defect (drop (Suc i) ((c # pre) @ t)) = None" by blast
    then show "match_defect (drop i (pre @ t)) = None" by simp
  qed
  then have "fix_from 0 (pre @ t) = pre @ fix_from 0 t" by (rule Cons.IH)
  with m show ?case by simp
qed

lemma parse_fenced:
  assumes p: "JSON_parse J = Some (JArr xs)"
    and t: "tag = [] \<or> json_tag tag"
    and w0: "\<forall>c \<in> set w0. is_space c" and w1: "\<forall>c \<in> set w1. is_space c"
    and w2: "\<forall>c \<in> set w2. is_space c" and w3: "\<forall>c \<in> set w3. is_space c"
  shows "parseTestCasesFromLLM (w0 @ fence @ tag @ w1 @ J @ w2 @ fence @ w3) = Inr xs"
proof -
  have "cleanLLMJsonResponse (w0 @ fence @ tag @ w1 @ J @ w2 @ fence @ w3) = trim J"
    using p t w0 w1 w2 w3 by (rule clean_fenced)
  moreover have "JSON_parse (trim J) = Some (JArr xs)" using p by (rule JSON_parse_trim)
  ultimately show ?thesis by (simp add: parseTestCasesFromLLM_def)
qed

section \<open>JSON.stringify\<close>

text \<open>
  \<^verbatim>\<open>JSON.stringify(value, null, 2)\<close> on JSON values: two spaces of indentation per
  level, \<^verbatim>\<open>[]\<close> and \<^verbatim>\<open>{}\<close> for the empty array and object, an undefined array
  element written as \<^verbatim>\<open>null\<close> and an undefined property left out. A number is written
  with the literal it was read from, and properties in insertion order.
\<close>

definition hex_digit :: "nat \<Rightarrow> char" where
  "hex_digit d = ''0123456789abcdef'' ! d"

definition quote_char :: "char \<Rightarrow> string" where
  "quote_char c =
     (if c = CHR 0x22 then [CHR 0x5C, CHR 0x22]
      else if c = CHR 0x5C then [CHR 0x5C, CHR 0x5C]
      else if c = CHR 0x08 then [CHR 0x5C, CHR ''b'']
      else if c = CHR 0x0C then [CHR 0x5C, CHR ''f'']
      else if c = CHR 0x0A then [CHR 0x5C, CHR ''n'']
      else if c = CHR 0x0D then [CHR 0x5C, CHR ''r'']
      else if c = CHR 0x09 then [CHR 0x5C, CHR ''t'']
      else if (of_char c :: nat) < 32
      then [CHR 0x5C, CHR ''u'', CHR ''0'', CHR ''0'',
            hex_digit (of_char c div 16), hex_digit (of_char c mod 16)]
      else [c])"

definition JSON_quote :: "string \<Rightarrow> string" where
  "JSON_quote s = [CHR 0x22] @ concat (map quote_char s) @ [CHR 0x22]"

fun join :: "string \<Rightarrow> string list \<Rightarrow> string" where
  \<comment> \<open>\<^verbatim>\<open>parts.join(sep)\<close>\<close>
  "join sep [] = []"
| "join sep [x] = x"
| "join sep (x # y # ys) = x @ sep @ join sep (y # ys)"

fun stringify :: "string \<Rightarrow> jsval \<Rightarrow> string option" where
  "stringify ind JUndefined = None"
| "stringify ind JNull = Some ''null''"
| "stringify ind (JBool b) = Some (if b then ''true'' else ''false'')"
| "stringify ind (JNum lit) = Some lit"
| "stringify ind (JStr s) = Some (JSON_quote s)"
| "stringify ind (JArr xs) =
     Some (if xs = [] then ''[]''
           else ''[\<newline>''
                @ join '',\<newline>''
                    (map (\<lambda>x. (ind @ ''  '') @
                            (case stringify (ind @ ''  '') x of None \<Rightarrow> ''null'' | Some t \<Rightarrow> t)) xs)
                @ ''\<newline>'' @ ind @ '']'')"
| "stringify ind (JObj kvs) =
     (let parts = concat (map (\<lambda>kv.
                     case stringify (ind @ ''  '') (snd kv) of
                       None \<Rightarrow> []
                     | Some t \<Rightarrow> [(ind @ ''  '') @ JSON_quote (fst kv) @ '': '' @ t]) kvs)
      in Some (if parts = [] then ''{}''
               else ''{\<newline>'' @ join '',\<newline>'' parts @ ''\<newline>'' @ ind @ ''}''))"

definition JSON_stringify2 :: "jsval \<Rightarrow> string" where
  \<comment> \<open>\<^verbatim>\<open>${JSON.stringify(v, null, 2)}\<close> inside a template literal\<close>
  "JSON_stringify2 v = (case stringify [] v of None \<Rightarrow> ''undefined'' | Some t \<Rightarrow> t)"

section \<open>Backend Adapter (src/lib/providers)\<close>

record ProviderConfig =
  provider :: "string option"
  apiKey :: "string option"
  model :: "string option"
  endpoint :: "string option"
  deployment :: "string option"
  apiVersion :: "string option"
  baseUrl :: "string option"

text \<open>
  A provider instance is the value returned by one of the four provider constructors,
  with the arguments it was built from (defaults applied). The constructors of the
  client library take these arguments without checking them.
\<close>

datatype Provider =
    OpenAI string string
  | Azure string string string string
  | Ollama string string
  | Gemini string string

definition missing :: "string option \<Rightarrow> bool" where
  \<comment> \<open>\<^verbatim>\<open>!v\<close> for an optional string: undefined or empty\<close>
  "missing v = (v = None \<or> v = Some [])"

definition given :: "string option \<Rightarrow> string" where
  \<comment> \<open>the value of an optional string that is not missing\<close>
  "given v = (case v of None \<Rightarrow> [] | Some s \<Rightarrow> s)"

definition default_to :: "string option \<Rightarrow> string \<Rightarrow> string" where
  \<comment> \<open>a default parameter value: used when the argument is undefined\<close>
  "default_to v d = (case v of None \<Rightarrow> d | Some s \<Rightarrow> s)"

definition openaiProvider :: "string \<Rightarrow> string option \<Rightarrow> Provider" where
  "openaiProvider key m = OpenAI key (default_to m ''gpt-4o-mini'')"

definition azureProvider :: "string \<Rightarrow> string \<Rightarrow> string \<Rightarrow> string \<Rightarrow> Provider" where
  "azureProvider key ep dep ver = Azure key ep dep ver"

definition ollamaProvider :: "string option \<Rightarrow> string option \<Rightarrow> Provider" where
  "ollamaProvider m url = Ollama (default_to m ''llama3.1'') (default_to url ''http://localhost:11434'')"

definition geminiProvider :: "string \<Rightarrow> string option \<Rightarrow> Provider" where
  "geminiProvider key m = Gemini key (default_to m ''gemini-1.5-flash-latest'')"

definition createProvider :: "ProviderConfig \<Rightarrow> error + Provider" where
  "createProvider config =
     (if provider config = Some ''openai'' then
        (if missing (apiKey config) then Inl (Error ''OpenAI API key is required'')
         else Inr (openaiProvider (given (apiKey config)) (model config)))
      else if provider config = Some ''azure'' then
        (if missing (apiKey config) \<or> missing (endpoint config) \<or> missing (deployment config)
            \<or> missing (apiVersion config)
         then Inl (Error ''Azure OpenAI requires apiKey, endpoint, deployment, and apiVersion'')
         else Inr (azureProvider (given (apiKey config)) (given (endpoint config))
                     (given (deployment config)) (given (apiVersion config))))
      else if provider config = Some ''ollama'' then
        Inr (ollamaProvider (model config) (baseUrl config))
      else if provider config = Some ''gemini'' then
        (if missing (apiKey config) then Inl (Error ''Google Gemini API key is required'')
         else Inr (geminiProvider (given (apiKey config)) (model config)))
      else Inl (Error (''Unsupported provider: '' @ default_to (provider config) ''undefined'')))"

record ChatPrompt =
  system :: string
  user :: string

record GenerateResult =
  content :: string
  tokenUsage :: "(nat \<times> nat \<times> nat) option"

text \<open>
  The remote service behind a provider instance: what the \<open>n\<close>-th call of a request
  returns for a provider and a message pair, a result or a thrown error. A request keeps
  the list of the calls it has issued and the list of the texts it has handed to the
  parser.
\<close>

type_synonym backend = "nat \<Rightarrow> Provider \<Rightarrow> ChatPrompt \<Rightarrow> error + GenerateResult"

record trace =
  calls :: "(Provider \<times> ChatPrompt) list"
  parses :: "string list"

definition no_trace :: trace where
  "no_trace = \<lparr> calls = [], parses = [] \<rparr>"

definition generate :: "backend \<Rightarrow> trace \<Rightarrow> Provider \<Rightarrow> ChatPrompt \<Rightarrow> (error + GenerateResult) \<times> trace" where
  \<comment> \<open>\<^verbatim>\<open>await providerInstance.generate(messages)\<close>: one remote call\<close>
  "generate be tr p msgs = (be (length (calls tr)) p msgs, tr\<lparr> calls := calls tr @ [(p, msgs)] \<rparr>)"

definition parsing :: "trace \<Rightarrow> string \<Rightarrow> trace" where
  "parsing tr t = tr\<lparr> parses := parses tr @ [t] \<rparr>"

section \<open>Prompt Composer (src/lib/prompt.ts)\<close>

definition testCase_system_head :: string where
  \<comment> \<open>the system prompt of generateTestCasePrompt up to the requested count\<close>
  \<open>testCase_system_head =
     ''You are an expert QA test designer with 10+ years of experience creating comprehensive test cases for software products.\<newline>''
     @ ''\<newline>''
     @ ''Your role is to analyze Product Requirements Documents (PRDs) and generate complete, high-quality test cases that cover:\<newline>''
     @ ''- Functional scenarios (happy paths)\<newline>''
     @ ''- Negative scenarios (error cases, invalid inputs)\<newline>''
     @ ''- Edge cases (boundary conditions, unusual states)\<newline>''
     @ ''\<newline>''
     @ ''OUTPUT FORMAT REQUIREMENTS:\<newline>''
     @ ''You MUST return ONLY valid JSON that can be parsed by JSON.parse().\<newline>''
     @ ''\<newline>''
     @ ''JSON Schema:\<newline>''
     @ ''- Type: Array of objects\<newline>''
     @ ''- Each object must have these EXACT fields (all required):\<newline>''
     @ ''  - testId: string (format: "TC-001", "TC-002", etc.)\<newline>''
     @ ''  - title: string (concise, action-oriented)\<newline>''
     @ ''  - description: string (detailed what is being tested)\<newline>''
     @ ''  - preconditions: string (system state before test)\<newline>''
     @ ''  - steps: array of strings (numbered steps: "1. Do X", "2. Verify Y")\<newline>''
     @ ''  - expectedResult: string (what should happen)\<newline>''
     @ ''  - priority: string (one of: "High", "Medium", "Low")\<newline>''
     @ ''  - type: string (one of: "Functional", "Negative", "Edge")\<newline>''
     @ ''\<newline>''
     @ ''JSON Syntax Rules (CRITICAL):\<newline>''
     @ ''1. NO markdown code blocks (no ```json or ```)\<newline>''
     @ ''2. NO explanatory text before or after JSON\<newline>''
     @ ''3. Start with [ and end with ]\<newline>''
     @ ''4. Escape quotes inside strings: use '' @ [CHR 0x5C] @ ''" not "\<newline>''
     @ ''5. Separate all properties with commas\<newline>''
     @ ''6. Separate all array elements with commas\<newline>''
     @ ''7. All string values must be in double quotes\<newline>''
     @ ''\<newline>''
     @ ''EXAMPLE OUTPUT FORMAT:\<newline>''
     @ ''[\<newline>''
     @ ''  {\<newline>''
     @ ''    "testId": "TC-001",\<newline>''
     @ ''    "title": "User login with valid credentials",\<newline>''
     @ ''    "description": "Verify that a registered user can successfully log in using valid email and password",\<newline>''
     @ ''    "preconditions": "User account exists and is active, user is on login page",\<newline>''
     @ ''    "steps": [\<newline>''
     @ ''      "1. Navigate to login page",\<newline>''
     @ ''      "2. Enter valid email address",\<newline>''
     @ ''      "3. Enter valid password",\<newline>''
     @ ''      "4. Click 'Login' button",\<newline>''
     @ ''      "5. Verify user is redirected to dashboard"\<newline>''
     @ ''    ],\<newline>''
     @ ''    "expectedResult": "User is successfully logged in and redirected to dashboard with welcome message displayed",\<newline>''
     @ ''    "priority": "High",\<newline>''
     @ ''    "type": "Functional"\<newline>''
     @ ''  }\<newline>''
     @ '']\<newline>''
     @ ''\<newline>''
     @ ''QUALITY REQUIREMENTS:\<newline>''
     @ ''- Generate ''\<close>

definition testCase_system_tail :: string where
  \<open>testCase_system_tail =
     ''\<newline>''
     @ ''- Cover all major features mentioned in PRD\<newline>''
     @ ''- Include functional, negative, and edge case types\<newline>''
     @ ''- Prioritize based on business criticality\<newline>''
     @ ''- Make steps clear, actionable, and testable\<newline>''
     @ ''- Ensure test cases are independent and can run in any order\<newline>''
     @ ''\<newline>''
     @ ''VALIDATION:\<newline>''
     @ ''Before responding, verify:\<newline>''
     @ ''1. JSON is valid (can be parsed by JSON.parse())\<newline>''
     @ ''2. All required fields are present in each object\<newline>''
     @ ''3. All enum values (priority, type) are correct\<newline>''
     @ ''4. No markdown formatting is included\<newline>''
     @ ''5. All quotes inside strings are escaped\<newline>''
     @ ''\<newline>''
     @ ''Return ONLY the JSON array, nothing else. Start your response with [ and end with ].''\<close>

definition testCase_user_head :: string where
  \<open>testCase_user_head =
     ''Analyze the following Product Requirements Document (PRD) and generate a complete set of test cases.\<newline>''
     @ ''\<newline>''
     @ ''THINKING PROCESS:\<newline>''
     @ ''Before generating test cases, consider:\<newline>''
     @ ''1. What are the main features and user flows described?\<newline>''
     @ ''2. What are the critical business rules and constraints?\<newline>''
     @ ''3. What are the edge cases and boundary conditions?\<newline>''
     @ ''4. What could go wrong (negative scenarios)?\<newline>''
     @ ''5. What are the different user roles or system states?\<newline>''
     @ ''\<newline>''
     @ ''PRODUCT REQUIREMENTS DOCUMENT:\<newline>''\<close>

definition testCase_user_tail :: string where
  \<open>testCase_user_tail =
     ''\<newline>''
     @ ''\<newline>''
     @ ''Generate comprehensive test cases covering all major functionality, edge cases, and negative scenarios described in the PRD above.''\<close>

definition refine_system :: string where
  \<comment> \<open>the system prompt of refineTestCasePrompt\<close>
  \<open>refine_system =
     ''You are an expert QA test designer specializing in refining and improving test cases.\<newline>''
     @ ''\<newline>''
     @ ''Your role is to refine test cases based on user feedback while maintaining consistency with the PRD requirements.\<newline>''
     @ ''\<newline>''
     @ ''OUTPUT FORMAT REQUIREMENTS:\<newline>''
     @ ''You MUST return ONLY valid JSON that can be parsed by JSON.parse().\<newline>''
     @ ''\<newline>''
     @ ''JSON Schema:\<newline>''
     @ ''- Type: Single object (not an array)\<newline>''
     @ ''- Must have these EXACT fields:\<newline>''
     @ ''  - testId: string (keep original unless user requests change)\<newline>''
     @ ''  - title: string\<newline>''
     @ ''  - description: string\<newline>''
     @ ''  - preconditions: string\<newline>''
     @ ''  - steps: array of strings\<newline>''
     @ ''  - expectedResult: string\<newline>''
     @ ''  - priority: string ("High", "Medium", or "Low")\<newline>''
     @ ''  - type: string ("Functional", "Negative", or "Edge")\<newline>''
     @ ''\<newline>''
     @ ''JSON Syntax Rules (CRITICAL):\<newline>''
     @ ''1. NO markdown code blocks (no ```json or ```)\<newline>''
     @ ''2. NO explanatory text before or after JSON\<newline>''
     @ ''3. Start with { and end with }\<newline>''
     @ ''4. Escape quotes inside strings: use '' @ [CHR 0x5C] @ ''" not "\<newline>''
     @ ''5. Separate all properties with commas\<newline>''
     @ ''6. All string values must be in double quotes\<newline>''
     @ ''\<newline>''
     @ ''EXAMPLE OUTPUT FORMAT:\<newline>''
     @ ''{\<newline>''
     @ ''  "testId": "TC-001",\<newline>''
     @ ''  "title": "User login with valid credentials",\<newline>''
     @ ''  "description": "Verify that a registered user can successfully log in using valid email and password",\<newline>''
     @ ''  "preconditions": "User account exists and is active, user is on login page",\<newline>''
     @ ''  "steps": [\<newline>''
     @ ''    "1. Navigate to login page",\<newline>''
     @ ''    "2. Enter valid email address",\<newline>''
     @ ''    "3. Enter valid password",\<newline>''
     @ ''    "4. Click 'Login' button",\<newline>''
     @ ''    "5. Verify user is redirected to dashboard"\<newline>''
     @ ''  ],\<newline>''
     @ ''  "expectedResult": "User is successfully logged in and redirected to dashboard with welcome message displayed",\<newline>''
     @ ''  "priority": "High",\<newline>''
     @ ''  "type": "Functional"\<newline>''
     @ ''}\<newline>''
     @ ''\<newline>''
     @ ''VALIDATION:\<newline>''
     @ ''Before responding, verify:\<newline>''
     @ ''1. JSON is valid (can be parsed by JSON.parse())\<newline>''
     @ ''2. All required fields are present\<newline>''
     @ ''3. All enum values (priority, type) are correct\<newline>''
     @ ''4. No markdown formatting is included\<newline>''
     @ ''5. All quotes inside strings are escaped\<newline>''
     @ ''6. Response is a single object, not an array\<newline>''
     @ ''\<newline>''
     @ ''Return ONLY the JSON object, nothing else. Start your response with { and end with }.''\<close>

definition refine_user_head :: string where
  \<open>refine_user_head =
     ''Refine the provided test case based on the user's instruction while maintaining consistency with the PRD summary.\<newline>''
     @ ''\<newline>''
     @ ''THINKING PROCESS:\<newline>''
     @ ''1. Understand what the user wants to change or improve\<newline>''
     @ ''2. Ensure the refined test case aligns with the PRD summary\<newline>''
     @ ''3. Maintain test case quality standards (clear steps, proper structure)\<newline>''
     @ ''4. Preserve test case ID unless explicitly asked to change it\<newline>''
     @ ''\<newline>''
     @ ''PRD SUMMARY:\<newline>''\<close>

definition refine_user_tail :: string where
  \<open>refine_user_tail =
     ''\<newline>''
     @ ''\<newline>''
     @ ''Refine the test case according to the user's instruction while ensuring it remains consistent with the PRD summary.''\<close>

definition correction_system :: string where
  \<comment> \<open>the system prompt of generateJsonCorrectionPrompt\<close>
  \<open>correction_system =
     ''You are a JSON syntax expert. Your task is to fix invalid JSON syntax errors.\<newline>''
     @ ''\<newline>''
     @ ''Your role is to:\<newline>''
     @ ''1. Identify JSON syntax errors (missing commas, unescaped quotes, etc.)\<newline>''
     @ ''2. Fix all syntax errors while preserving the original data\<newline>''
     @ ''3. Return ONLY the corrected, valid JSON\<newline>''
     @ ''\<newline>''
     @ ''COMMON JSON ERRORS TO FIX:\<newline>''
     @ ''1. Missing commas between properties\<newline>''
     @ ''2. Unescaped quotes inside strings (use '' @ [CHR 0x5C] @ ''" not ")\<newline>''
     @ ''3. Trailing commas (not allowed in JSON)\<newline>''
     @ ''4. Missing quotes around property names or string values\<newline>''
     @ ''5. Invalid characters in strings\<newline>''
     @ ''6. Mismatched brackets or braces\<newline>''
     @ ''\<newline>''
     @ ''CORRECTION RULES:\<newline>''
     @ ''1. Return ONLY the corrected JSON\<newline>''
     @ ''2. NO markdown code blocks\<newline>''
     @ ''3. NO explanatory text\<newline>''
     @ ''4. Ensure JSON.parse() can successfully parse your response\<newline>''
     @ ''5. Maintain the original data structure and content\<newline>''
     @ ''\<newline>''
     @ ''VALIDATION:\<newline>''
     @ ''Before responding, mentally verify:\<newline>''
     @ ''- JSON starts with { or [\<newline>''
     @ ''- JSON ends with } or ]\<newline>''
     @ ''- All quotes are properly escaped\<newline>''
     @ ''- All commas are in correct positions\<newline>''
     @ ''- No trailing commas\<newline>''
     @ ''\<newline>''
     @ ''Return ONLY the corrected JSON, nothing else.''\<close>

definition correction_user_tail :: string where
  \<open>correction_user_tail =
     ''...\<newline>''
     @ ''\<newline>''
     @ ''Fix all JSON syntax errors in the invalid JSON above and return ONLY the corrected, valid JSON.''\<close>

definition addMore_system_head :: string where
  \<comment> \<open>the system prompt of generateAddMoreTestCasesPrompt up to the count\<close>
  \<open>addMore_system_head =
     ''You are an expert QA test designer with 10+ years of experience creating comprehensive test cases for software products.\<newline>''
     @ ''\<newline>''
     @ ''Your role is to generate additional test cases based on user instructions while ensuring NO DUPLICATES with existing test cases.\<newline>''
     @ ''\<newline>''
     @ ''OUTPUT FORMAT REQUIREMENTS:\<newline>''
     @ ''You MUST return ONLY valid JSON that can be parsed by JSON.parse().\<newline>''
     @ ''\<newline>''
     @ ''JSON Schema:\<newline>''
     @ ''- Type: Array of objects\<newline>''
     @ ''- Each object must have these EXACT fields (all required):\<newline>''
     @ ''  - testId: string (format: "TC-XXX" where XXX is a unique number NOT used in existing test cases)\<newline>''
     @ ''  - title: string (concise, action-oriented, DIFFERENT from existing test cases)\<newline>''
     @ ''  - description: string (detailed what is being tested)\<newline>''
     @ ''  - preconditions: string (system state before test)\<newline>''
     @ ''  - steps: array of strings (numbered steps: "1. Do X", "2. Verify Y")\<newline>''
     @ ''  - expectedResult: string (what should happen)\<newline>''
     @ ''  - priority: string (one of: "High", "Medium", "Low")\<newline>''
     @ ''  - type: string (one of: "Functional", "Negative", "Edge")\<newline>''
     @ ''\<newline>''
     @ ''JSON Syntax Rules (CRITICAL):\<newline>''
     @ ''1. NO markdown code blocks (no ```json or ```)\<newline>''
     @ ''2. NO explanatory text before or after JSON\<newline>''
     @ ''3. Start with [ and end with ]\<newline>''
     @ ''4. Escape quotes inside strings: use '' @ [CHR 0x5C] @ ''" not "\<newline>''
     @ ''5. Separate all properties with commas\<newline>''
     @ ''6. Separate all array elements with commas\<newline>''
     @ ''7. All string values must be in double quotes\<newline>''
     @ ''\<newline>''
     @ ''DUPLICATE PREVENTION (CRITICAL):\<newline>''
     @ ''- Review ALL existing test cases carefully\<newline>''
     @ ''- Generate test cases that are DISTINCTLY different\<newline>''
     @ ''- Do NOT create test cases with similar titles, steps, or expected results\<newline>''
     @ ''- Focus on NEW scenarios, edge cases, or variations not already covered\<newline>''
     @ ''- If user asks for specific type (e.g., "negative test cases"), ensure they are truly different from existing negative test cases\<newline>''
     @ ''\<newline>''
     @ ''QUALITY REQUIREMENTS:\<newline>''
     @ ''- Generate exactly ''\<close>

definition addMore_system_tail :: string where
  \<open>addMore_system_tail =
     '' test cases\<newline>''
     @ ''- Cover NEW scenarios not in existing test cases\<newline>''
     @ ''- Follow the user's follow-up instruction carefully\<newline>''
     @ ''- Include functional, negative, and edge case types as appropriate\<newline>''
     @ ''- Prioritize based on business criticality\<newline>''
     @ ''- Make steps clear, actionable, and testable\<newline>''
     @ ''- Ensure test cases are independent and can run in any order\<newline>''
     @ ''\<newline>''
     @ ''VALIDATION:\<newline>''
     @ ''Before responding, verify:\<newline>''
     @ ''1. JSON is valid (can be parsed by JSON.parse())\<newline>''
     @ ''2. All required fields are present in each object\<newline>''
     @ ''3. All enum values (priority, type) are correct\<newline>''
     @ ''4. No markdown formatting is included\<newline>''
     @ ''5. All quotes inside strings are escaped\<newline>''
     @ ''6. Test cases are DIFFERENT from existing ones\<newline>''
     @ ''7. Test IDs are unique and don't conflict with existing test cases\<newline>''
     @ ''\<newline>''
     @ ''Return ONLY the JSON array, nothing else. Start your response with [ and end with ].''\<close>

definition addMore_user_head :: string where
  \<open>addMore_user_head =
     '' additional test cases based on the user's instruction, ensuring they are DIFFERENT from existing test cases.\<newline>''
     @ ''\<newline>''
     @ ''THINKING PROCESS:\<newline>''
     @ ''Before generating test cases, consider:\<newline>''
     @ ''1. What test cases already exist? (review the list below)\<newline>''
     @ ''2. What NEW scenarios can be tested that aren't already covered?\<newline>''
     @ ''3. How can I follow the user's instruction while avoiding duplicates?\<newline>''
     @ ''4. What are the gaps in test coverage?\<newline>''
     @ ''5. What edge cases or negative scenarios are missing?\<newline>''
     @ ''\<newline>''
     @ ''PRD SUMMARY:\<newline>''\<close>

definition addMore_user_tail :: string where
  \<open>addMore_user_tail =
     '' NEW test cases that:\<newline>''
     @ ''- Follow the user's instruction\<newline>''
     @ ''- Are DISTINCTLY different from existing test cases\<newline>''
     @ ''- Cover scenarios not already tested\<newline>''
     @ ''- Maintain high quality standards (clear steps, proper structure)\<newline>''
     @ ''- Use unique test IDs that don't conflict with existing ones''\<close>

definition addMore_summary_note :: string where
  \<open>addMore_summary_note =
     ''\<newline>''
     @ ''\<newline>''
     @ ''IMPORTANT: The above is a summary. Generate test cases that are clearly different from what's described.''\<close>

definition addMore_list_note :: string where
  \<open>addMore_list_note =
     ''\<newline>''
     @ ''\<newline>''
     @ ''IMPORTANT: Review these carefully and generate test cases that are DISTINCTLY different.''\<close>

definition summarize_system :: string where
  \<comment> \<open>the system prompt of summarizeExistingTestCases\<close>
  \<open>summarize_system =
     ''You are a test case analyst. Summarize the following test cases in a concise format that helps prevent generating duplicates.\<newline>''
     @ ''\<newline>''
     @ ''Focus on:\<newline>''
     @ ''- Test case titles and types\<newline>''
     @ ''- Key scenarios covered\<newline>''
     @ ''- Main test flows\<newline>''
     @ ''- Edge cases and negative scenarios already tested\<newline>''
     @ ''\<newline>''
     @ ''Keep the summary under 500 words. Format as a structured list.''\<close>


definition generateTestCasePrompt :: "string \<Rightarrow> nat option \<Rightarrow> ChatPrompt" where
  "generateTestCasePrompt prdText cnt =
     \<lparr> system = testCase_system_head
               @ (case cnt of
                    None \<Rightarrow> ''10-20''
                  | Some n \<Rightarrow> if n = 0 then ''10-20'' else ''exactly '' @ string_of_nat n)
               @ '' test cases''
               @ (case cnt of
                    None \<Rightarrow> '' minimum (more for complex PRDs)''
                  | Some n \<Rightarrow> if n = 0 then '' minimum (more for complex PRDs)'' else [])
               @ testCase_system_tail,
       user = testCase_user_head @ prdText @ testCase_user_tail \<rparr>"

definition refineTestCasePrompt :: "string \<Rightarrow> jsval \<Rightarrow> string \<Rightarrow> ChatPrompt" where
  "refineTestCasePrompt summ testCase followupInstruction =
     \<lparr> system = refine_system,
       user = refine_user_head @ summ
              @ ''\<newline>\<newline>CURRENT TEST CASE:\<newline>'' @ JSON_stringify2 testCase
              @ ''\<newline>\<newline>USER'' @ [CHR 0x27] @ ''S REFINEMENT INSTRUCTION:\<newline>''
              @ followupInstruction @ refine_user_tail \<rparr>"

definition generateJsonCorrectionPrompt :: "string \<Rightarrow> string \<Rightarrow> string \<Rightarrow> ChatPrompt" where
  "generateJsonCorrectionPrompt invalidJson parseError originalSystemPrompt =
     \<lparr> system = correction_system,
       user = ''The previous response contained invalid JSON that failed to parse.\<newline>\<newline>PARSING ERROR:\<newline>''
              @ parseError
              @ ''\<newline>\<newline>INVALID JSON RESPONSE (first 1000 characters):\<newline>''
              @ substring0 invalidJson 1000
              @ (if length invalidJson > 1000 then ''...'' else [])
              @ ''\<newline>\<newline>ORIGINAL SYSTEM INSTRUCTIONS (for context):\<newline>''
              @ substring0 originalSystemPrompt 500
              @ correction_user_tail \<rparr>"

definition existingTestCasesText :: "string + jsval list \<Rightarrow> string" where
  \<comment> \<open>the argument is a synopsis (a string) or the array of existing records\<close>
  "existingTestCasesText existing =
     (case existing of
        Inl synopsis \<Rightarrow>
          ''EXISTING TEST CASES SUMMARY:\<newline>'' @ synopsis @ addMore_summary_note
      | Inr tcs \<Rightarrow>
          ''EXISTING TEST CASES ('' @ string_of_nat (length tcs) @ '' total):\<newline>''
          @ JSON_stringify2 (JArr tcs) @ addMore_list_note)"

definition generateAddMoreTestCasesPrompt ::
  "string \<Rightarrow> string + jsval list \<Rightarrow> string \<Rightarrow> nat \<Rightarrow> ChatPrompt" where
  "generateAddMoreTestCasesPrompt prdSummary existing followUpPrompt cnt =
     \<lparr> system = addMore_system_head @ string_of_nat cnt @ addMore_system_tail,
       user = ''Generate '' @ string_of_nat cnt @ addMore_user_head @ prdSummary
              @ ''\<newline>\<newline>'' @ existingTestCasesText existing
              @ ''\<newline>\<newline>USER'' @ [CHR 0x27] @ ''S INSTRUCTION:\<newline>'' @ followUpPrompt
              @ ''\<newline>\<newline>Generate exactly '' @ string_of_nat cnt @ addMore_user_tail \<rparr>"

section \<open>Routes (src/app/api)\<close>

datatype payload =
    Cases "TestCase list" nat "(nat \<times> nat \<times> nat) option" "string option"
  | Refined TestCase

text \<open>
  A response is the JSON body of a success (the test cases, their count, the token usage
  and the summary that was passed in; or the refined test case) or a failure with its
  HTTP status, its error message and, for parse failures, the raw backend text.
\<close>

datatype response = Success payload | Failure nat string "string option"

definition blank :: "string \<Rightarrow> bool" where
  \<comment> \<open>\<^verbatim>\<open>!s || s.trim().length === 0\<close>\<close>
  "blank s = (s = [] \<or> length (trim s) = 0)"

definition parse_batch :: "string \<Rightarrow> jsval list \<Rightarrow> trace \<Rightarrow> (error + TestCase list) \<times> trace" where
  \<comment> \<open>the block \<^verbatim>\<open>parsed = parseTestCasesFromLLM(generatedText);
      testCases = normalizeTestCases(parsed, existing)\<close> of the two batch routes\<close>
  "parse_batch generatedText existing tr =
     (case parseTestCasesFromLLM generatedText of
        Inl e \<Rightarrow> (Inl e, parsing tr generatedText)
      | Inr parsed \<Rightarrow> (normalizeTestCases parsed existing, parsing tr generatedText))"

definition generate_cases ::
  "backend \<Rightarrow> string \<Rightarrow> string option \<Rightarrow> ProviderConfig \<Rightarrow> nat option \<Rightarrow> response \<times> trace" where
  \<comment> \<open>POST /api/generate-cases\<close>
  "generate_cases be text summ config cnt =
     (if blank text then (Failure 400 ''Text is required'' None, no_trace)
      else if missing (provider config) then (Failure 400 ''Provider is required'' None, no_trace)
      else case createProvider config of
        Inl e \<Rightarrow> (Failure 400 (message e) None, no_trace)
      | Inr providerInstance \<Rightarrow>
          (case generate be no_trace providerInstance (generateTestCasePrompt text cnt) of
             (Inl e, tr) \<Rightarrow> (Failure 500 (''LLM generation failed: '' @ message e) None, tr)
           | (Inr result, tr) \<Rightarrow>
               (case parse_batch (content result) [] tr of
                  (Inl e, tr') \<Rightarrow>
                    (Failure 500 (''Failed to parse LLM response: '' @ message e)
                       (Some (content result)), tr')
                | (Inr tcs, tr') \<Rightarrow>
                    (Success (Cases tcs (length tcs) (tokenUsage result)
                                (if missing summ then None else summ)), tr'))))"

definition TOKEN_LIMIT_THRESHOLD :: nat where
  "TOKEN_LIMIT_THRESHOLD = 5000"

definition summarize_prompt :: "string \<Rightarrow> ChatPrompt" where
  \<comment> \<open>the message pair of summarizeExistingTestCases for the serialized working set\<close>
  "summarize_prompt testCasesJson =
     \<lparr> system = summarize_system,
       user = ''Summarize these test cases to help prevent generating duplicates:\<newline>\<newline>''
              @ substring0 testCasesJson 10000
              @ (if length testCasesJson > 10000 then ''...'' else []) \<rparr>"

definition summarizeExistingTestCases ::
  "backend \<Rightarrow> trace \<Rightarrow> jsval list \<Rightarrow> Provider \<Rightarrow> string \<times> trace" where
  "summarizeExistingTestCases be tr existingTestCases providerInstance =
     (let testCasesJson = JSON_stringify2 (JArr existingTestCases)
      in case generate be tr providerInstance (summarize_prompt testCasesJson) of
           (Inr result, tr') \<Rightarrow> (trim (content result), tr')
         | (Inl e, tr') \<Rightarrow>
             (''Summary of '' @ string_of_nat (length existingTestCases)
              @ '' existing test cases:\<newline>'' @ substring0 testCasesJson 2000 @ ''...'', tr'))"

definition context_for_prompt ::
  "backend \<Rightarrow> trace \<Rightarrow> jsval list \<Rightarrow> Provider \<Rightarrow> (string + jsval list) \<times> trace" where
  \<comment> \<open>\<^verbatim>\<open>existingTestCasesForPrompt\<close>: the check of the token estimate against the threshold\<close>
  "context_for_prompt be tr existingTestCases providerInstance =
     (let existingTestCasesJson = JSON_stringify2 (JArr existingTestCases);
          existingTokens = estimateTokens existingTestCasesJson
      in if existingTokens > TOKEN_LIMIT_THRESHOLD
         then (case summarizeExistingTestCases be tr existingTestCases providerInstance of
                 (synopsis, tr') \<Rightarrow> (Inl synopsis, tr'))
         else (Inr existingTestCases, tr))"

definition add_more_cases ::
  "backend \<Rightarrow> string \<Rightarrow> jsval \<Rightarrow> string \<Rightarrow> nat option \<Rightarrow> ProviderConfig \<Rightarrow> response \<times> trace" where
  \<comment> \<open>POST /api/add-more-cases\<close>
  "add_more_cases be summ existingTestCases followUpPrompt cnt config =
     (if blank summ then (Failure 400 ''PRD summary is required'' None, no_trace)
      else case existingTestCases of
        JArr (tc # tcs) \<Rightarrow>
          (if blank followUpPrompt then (Failure 400 ''Follow-up prompt is required'' None, no_trace)
           else if missing (provider config)
           then (Failure 400 ''Provider is required'' None, no_trace)
           else
             let testCaseCount = (case cnt of None \<Rightarrow> 5 | Some n \<Rightarrow> if n = 0 then 5 else n)
             in case createProvider config of
                  Inl e \<Rightarrow> (Failure 400 (message e) None, no_trace)
                | Inr providerInstance \<Rightarrow>
                    (case context_for_prompt be no_trace (tc # tcs) providerInstance of
                       (existingForPrompt, tr0) \<Rightarrow>
                         (case generate be tr0 providerInstance
                                 (generateAddMoreTestCasesPrompt summ existingForPrompt
                                    followUpPrompt testCaseCount) of
                            (Inl e, tr) \<Rightarrow>
                              (Failure 500 (''LLM generation failed: '' @ message e) None, tr)
                          | (Inr result, tr) \<Rightarrow>
                              (case parse_batch (content result) (tc # tcs) tr of
                                 (Inl e, tr') \<Rightarrow>
                                   (Failure 500 (''Failed to parse LLM response: '' @ message e)
                                      (Some (content result)), tr')
                               | (Inr new, tr') \<Rightarrow>
                                   (Success (Cases new (length new) (tokenUsage result) None),
                                    tr')))))
      | _ \<Rightarrow> (Failure 400 ''Existing test cases are required'' None, no_trace))"

definition match_braces :: "string \<Rightarrow> string option" where
  \<comment> \<open>\<^verbatim>\<open>s.match(/\{[\s\S]*\}/)\<close>: from the first opening brace to the last closing
      brace after it\<close>
  "match_braces s =
     (case dropWhile (\<lambda>c. c \<noteq> CHR ''{'') s of
        [] \<Rightarrow> None
      | b # rest \<Rightarrow>
          (case dropWhile (\<lambda>c. c \<noteq> CHR ''}'') (rev rest) of
             [] \<Rightarrow> None
           | back \<Rightarrow> Some (b # rev back)))"

definition extract_object :: "string \<Rightarrow> string" where
  \<comment> \<open>\<^verbatim>\<open>jsonMatch = cleanedText.match(/\{[\s\S]*\}/); if (jsonMatch) cleanedText = jsonMatch[0]\<close>\<close>
  "extract_object cleanedText =
     (case match_braces cleanedText of Some m \<Rightarrow> m | None \<Rightarrow> cleanedText)"

definition maxAttempts :: nat where
  "maxAttempts = 2"

datatype loop_exit = Parsed jsval | Thrown error | NotParsed

function refine_loop ::
  "backend \<Rightarrow> Provider \<Rightarrow> string \<Rightarrow> nat \<Rightarrow> string \<Rightarrow> string \<Rightarrow> trace
   \<Rightarrow> loop_exit \<times> string \<times> trace" where
  \<comment> \<open>the \<^verbatim>\<open>while (parseAttempts < maxAttempts)\<close> loop of the refinement route, with
      its variables \<open>parseAttempts\<close>, \<open>cleanedText\<close> and \<open>generatedText\<close>; it ends with the
      parsed object, with the parse error that is re-thrown, or without a parsed object
      (after a failed correction call)\<close>
  "refine_loop be p sys parseAttempts cleanedText generatedText tr =
     (if \<not> parseAttempts < maxAttempts then (NotParsed, generatedText, tr)
      else
        let cleanedText' = extract_object cleanedText
        in case parseTestCaseFromLLM cleanedText' of
             Inr parsed \<Rightarrow> (Parsed parsed, generatedText, parsing tr cleanedText')
           | Inl parseError \<Rightarrow>
               if parseAttempts + 1 \<ge> maxAttempts
               then (Thrown parseError, generatedText, parsing tr cleanedText')
               else (case generate be (parsing tr cleanedText') p
                            (generateJsonCorrectionPrompt cleanedText' (message parseError) sys) of
                       (Inr correctionResult, tr') \<Rightarrow>
                         refine_loop be p sys (parseAttempts + 1) cleanedText'
                           (content correctionResult) tr'
                     | (Inl correctionError, tr') \<Rightarrow> (NotParsed, generatedText, tr')))"
  by pat_completeness auto
termination
  by (relation "measure (\<lambda>(be, p, sys, parseAttempts, rest). maxAttempts - parseAttempts)")
     (auto simp: maxAttempts_def)

declare refine_loop.simps [simp del]

fun spread_with :: "jsval \<Rightarrow> string \<Rightarrow> jsval \<Rightarrow> jsval" where
  \<comment> \<open>the object literal \<^verbatim>\<open>{ ...obj, key: v }\<close>\<close>
  "spread_with (JObj kvs) k v = JObj (obj_put k v kvs)"
| "spread_with other k v = JObj [(k, v)]"

definition refine_test_case ::
  "backend \<Rightarrow> ProviderConfig \<Rightarrow> string \<Rightarrow> jsval \<Rightarrow> string \<Rightarrow> response \<times> trace" where
  \<comment> \<open>POST /api/refine-test-case\<close>
  "refine_test_case be config summ testCase followup =
     (if blank summ then (Failure 400 ''PRD summary is required'' None, no_trace)
      else if \<not> truthy testCase then (Failure 400 ''Test case is required'' None, no_trace)
      else if blank followup
      then (Failure 400 ''Follow-up instruction is required'' None, no_trace)
      else case createProvider config of
        Inl e \<Rightarrow> (Failure 400 (message e) None, no_trace)
      | Inr providerInstance \<Rightarrow>
          let prompt = refineTestCasePrompt summ testCase followup
          in case generate be no_trace providerInstance prompt of
               (Inl e, tr) \<Rightarrow> (Failure 500 (''LLM refinement failed: '' @ message e) None, tr)
             | (Inr result, tr) \<Rightarrow>
                 (case refine_loop be providerInstance (system prompt) 0
                         (trim (content result)) (content result) tr of
                    (Parsed parsed, generatedText, tr') \<Rightarrow>
                      (case normalizeTestCase
                              (spread_with parsed ''testId''
                                 (or_else (get_prop parsed ''testId'') (get_prop testCase ''testId'')))
                              0 None of
                         Inl e \<Rightarrow>
                           (Failure 500 (''Failed to parse refined test case: '' @ message e)
                              (Some generatedText), tr')
                       | Inr (refined, ids) \<Rightarrow> (Success (Refined refined), tr'))
                  | (Thrown e, generatedText, tr') \<Rightarrow>
                      (Failure 500 (''Failed to parse refined test case: '' @ message e)
                         (Some generatedText), tr')
                  | (NotParsed, generatedText, tr') \<Rightarrow>
                      (Failure 500
                         (''Failed to parse refined test case: Failed to parse JSON after all attempts'')
                         (Some generatedText), tr')))"

subsection \<open>Adapter construction in the routes\<close>


lemma createProvider_fails_iff:
  "isl (createProvider config) \<longleftrightarrow>
     (provider config = Some ''openai'' \<and> missing (apiKey config))
   \<or> (provider config = Some ''azure''
        \<and> (missing (apiKey config) \<or> missing (endpoint config) \<or> missing (deployment config)
             \<or> missing (apiVersion config)))
   \<or> (provider config = Some ''gemini'' \<and> missing (apiKey config))
   \<or> provider config \<notin> {Some ''openai'', Some ''azure'', Some ''ollama'', Some ''gemini''}"
  by (simp add: createProvider_def)

lemma generate_cases_no_call:
  "createProvider config = Inl e \<Longrightarrow> calls (snd (generate_cases be text given_summary config cnt)) = []"
  by (simp add: generate_cases_def no_trace_def)

lemma add_more_cases_no_call:
  "createProvider config = Inl e \<Longrightarrow>
   calls (snd (add_more_cases be summ existing followUp cnt config)) = []"
  by (simp add: add_more_cases_def no_trace_def Let_def split: jsval.splits list.splits)

lemma refine_test_case_no_call:
  "createProvider config = Inl e \<Longrightarrow>
   calls (snd (refine_test_case be config summ testCase followup)) = []"
  by (simp add: refine_test_case_def no_trace_def)

subsection \<open>Runs of the initial generation route\<close>

lemma generate_cases_run:
  assumes "\<not> blank text" and "\<not> missing (provider config)"
    and "createProvider config = Inr p"
    and "be 0 p (generateTestCasePrompt text cnt) = Inr result"
  shows "generate_cases be text given_summary config cnt =
     (case parse_batch (content result) []
             \<lparr> calls = [(p, generateTestCasePrompt text cnt)], parses = [] \<rparr> of
        (Inl e, tr') \<Rightarrow>
          (Failure 500 (''Failed to parse LLM response: '' @ message e) (Some (content result)), tr')
      | (Inr tcs, tr') \<Rightarrow>
          (Success (Cases tcs (length tcs) (tokenUsage result)
                      (if missing given_summary then None else given_summary)), tr'))"
  using assms by (simp add: generate_cases_def generate_def no_trace_def)

subsection \<open>Scripted remote services\<close>

definition scripted :: "(error + GenerateResult) list \<Rightarrow> backend" where
  \<comment> \<open>a remote service that answers the n-th call of a request with the n-th entry of a
      script, and fails when the script is exhausted\<close>
  "scripted answers n p msgs =
     (if n < length answers then answers ! n else Inl (Error ''fetch failed''))"

subsection \<open>Runs of the refinement route\<close>

lemma match_braces_idem: "match_braces s = Some m \<Longrightarrow> match_braces m = Some m"
proof -
  assume a: "match_braces s = Some m"
  obtain b rest where d: "dropWhile (\<lambda>c. c \<noteq> CHR ''{'') s = b # rest"
    using a by (cases "dropWhile (\<lambda>c. c \<noteq> CHR ''{'') s") (simp_all add: match_braces_def)
  have b: "b = CHR ''{''" using dropWhile_split [OF d] by simp
  obtain k bk where k: "dropWhile (\<lambda>c. c \<noteq> CHR ''}'') (rev rest) = k # bk"
    using a d by (cases "dropWhile (\<lambda>c. c \<noteq> CHR ''}'') (rev rest)") (simp_all add: match_braces_def)
  have kk: "k = CHR ''}''" using dropWhile_split [OF k] by simp
  have m: "m = b # rev (k # bk)" using a d k by (simp add: match_braces_def)
  show ?thesis using m b kk by (simp add: match_braces_def)
qed

lemma extract_object_idem: "extract_object (extract_object s) = extract_object s"
  by (cases "match_braces s") (simp_all add: extract_object_def match_braces_idem)

lemma refine_loop_first:
  "refine_loop be p sys 0 t g tr =
     (case parseTestCaseFromLLM (extract_object t) of
        Inr parsed \<Rightarrow> (Parsed parsed, g, parsing tr (extract_object t))
      | Inl parseError \<Rightarrow>
          (case generate be (parsing tr (extract_object t)) p
                  (generateJsonCorrectionPrompt (extract_object t) (message parseError) sys) of
             (Inr correctionResult, tr') \<Rightarrow>
               refine_loop be p sys 1 (extract_object t) (content correctionResult) tr'
           | (Inl correctionError, tr') \<Rightarrow> (NotParsed, g, tr')))"
proof -
  have one: "(0::nat) + 1 = 1" by simp
  show ?thesis
    by (subst refine_loop.simps, unfold one)
       (simp add: maxAttempts_def Let_def split: sum.split prod.split)
qed

lemma refine_loop_second:
  "refine_loop be p sys 1 t g tr =
     (case parseTestCaseFromLLM (extract_object t) of
        Inr parsed \<Rightarrow> (Parsed parsed, g, parsing tr (extract_object t))
      | Inl parseError \<Rightarrow> (Thrown parseError, g, parsing tr (extract_object t)))"
  by (subst refine_loop.simps) (simp add: maxAttempts_def Let_def split: sum.split)

lemma refine_loop_parsed:
  "refine_loop be p sys n t g tr = (Parsed parsed, g', tr') \<Longrightarrow>
   parses tr' \<noteq> [] \<and> parseTestCaseFromLLM (last (parses tr')) = Inr parsed"
proof (induction be p sys n t g tr rule: refine_loop.induct)
  case (1 be p sys n t g tr)
  show ?case
  proof (cases "n < maxAttempts")
    case False
    with "1.prems" show ?thesis by (subst (asm) refine_loop.simps) simp
  next
    case True
    show ?thesis
    proof (cases "parseTestCaseFromLLM (extract_object t)")
      case (Inr v)
      with True "1.prems" show ?thesis
        by (subst (asm) refine_loop.simps) (auto simp: Let_def parsing_def)
    next
      case (Inl e)
      show ?thesis
      proof (cases "n + 1 \<ge> maxAttempts")
        case True
        with \<open>n < maxAttempts\<close> Inl "1.prems" show ?thesis
          by (subst (asm) refine_loop.simps) (simp add: Let_def)
      next
        case False
        obtain res tr1 where gen: "generate be (parsing tr (extract_object t)) p
            (generateJsonCorrectionPrompt (extract_object t) (message e) sys) = (res, tr1)"
          by (cases "generate be (parsing tr (extract_object t)) p
            (generateJsonCorrectionPrompt (extract_object t) (message e) sys)") auto
        show ?thesis
        proof (cases res)
          case (Inl ce)
          with False \<open>n < maxAttempts\<close> \<open>parseTestCaseFromLLM (extract_object t) = Inl e\<close>
            gen "1.prems" show ?thesis
            by (subst (asm) refine_loop.simps) (simp add: Let_def)
        next
          case (Inr r)
          note pe = \<open>parseTestCaseFromLLM (extract_object t) = Inl e\<close>
          have nn: "\<not> \<not> n < maxAttempts" using \<open>n < maxAttempts\<close> by simp
          from False \<open>n < maxAttempts\<close> pe gen Inr "1.prems"
          have run: "refine_loop be p sys (n + 1) (extract_object t) (content r) tr1
                = (Parsed parsed, g', tr')"
            by (subst (asm) refine_loop.simps) (simp add: Let_def)
          from "1.IH" [OF nn refl pe False gen [symmetric] Inr run]
          show ?thesis by simp
        qed
      qed
    qed
  qed
qed

lemma parseTestCaseFromLLM_object:
  "parseTestCaseFromLLM t = Inr parsed \<Longrightarrow> \<exists>kvs. parsed = JObj kvs"
proof (cases "JSON_parse (cleanLLMJsonResponse t)")
  case None
  assume "parseTestCaseFromLLM t = Inr parsed"
  with None show ?thesis by (simp add: parseTestCaseFromLLM_def)
next
  case (Some u)
  assume "parseTestCaseFromLLM t = Inr parsed"
  with Some show ?thesis by (cases u) (auto simp: parseTestCaseFromLLM_def split: if_splits)
qed

lemma map_of_obj_put: "map_of (obj_put k v kvs) k = Some v"
proof (cases "k \<in> fst ` set kvs")
  case False
  then have "map_of kvs k = None" by (simp add: map_of_eq_None_iff)
  with False show ?thesis by (simp add: obj_put_def map_add_def)
next
  case True
  have "k \<in> fst ` set xs \<Longrightarrow>
        map_of (map (\<lambda>(k', v'). if k' = k then (k, v) else (k', v')) xs) k = Some v" for xs
    by (induction xs) auto
  with True show ?thesis by (simp add: obj_put_def)
qed

lemma get_prop_spread_with: "get_prop (spread_with ob k v) k = v"
  by (cases ob) (simp_all add: map_of_obj_put)

lemma refine_test_case_run:
  assumes "\<not> blank summ" and "truthy testCase" and "\<not> blank followup"
    and "createProvider config = Inr p"
    and "be 0 p (refineTestCasePrompt summ testCase followup) = Inr result"
  shows "refine_test_case be config summ testCase followup =
     (case refine_loop be p refine_system 0 (trim (content result)) (content result)
             \<lparr> calls = [(p, refineTestCasePrompt summ testCase followup)], parses = [] \<rparr> of
        (Parsed parsed, generatedText, tr') \<Rightarrow>
          (case normalizeTestCase
                  (spread_with parsed ''testId''
                     (or_else (get_prop parsed ''testId'') (get_prop testCase ''testId'')))
                  0 None of
             Inl e \<Rightarrow>
               (Failure 500 (''Failed to parse refined test case: '' @ message e)
                  (Some generatedText), tr')
           | Inr (refined, ids) \<Rightarrow> (Success (Refined refined), tr'))
      | (Thrown e, generatedText, tr') \<Rightarrow>
          (Failure 500 (''Failed to parse refined test case: '' @ message e)
             (Some generatedText), tr')
      | (NotParsed, generatedText, tr') \<Rightarrow>
          (Failure 500
             (''Failed to parse refined test case: Failed to parse JSON after all attempts'')
             (Some generatedText), tr'))"
  using assms
  by (simp add: refine_test_case_def generate_def no_trace_def Let_def refineTestCasePrompt_def)


lemma refine_test_case_success:
  assumes "fst (refine_test_case be config summ testCase followup) = Success (Refined r)"
  shows "\<exists>parsed. parses (snd (refine_test_case be config summ testCase followup)) \<noteq> []
           \<and> parseTestCaseFromLLM
                 (last (parses (snd (refine_test_case be config summ testCase followup))))
               = Inr parsed
           \<and> normalizeTestCase
                 (spread_with parsed ''testId''
                    (or_else (get_prop parsed ''testId'') (get_prop testCase ''testId'')))
                 0 None = Inr (r, None)"
proof -
  let ?R = "refine_test_case be config summ testCase followup"
  from assms obtain p result where ok: "\<not> blank summ" "truthy testCase" "\<not> blank followup"
      "createProvider config = Inr p"
      "be 0 p (refineTestCasePrompt summ testCase followup) = Inr result"
    by (auto simp: refine_test_case_def generate_def no_trace_def Let_def
             split: if_splits sum.splits)
  let ?L = "refine_loop be p refine_system 0 (trim (content result)) (content result)
              \<lparr> calls = [(p, refineTestCasePrompt summ testCase followup)], parses = [] \<rparr>"
  note run = refine_test_case_run [of summ testCase followup config p be result, OF ok]
  obtain ex g tr' where L: "?L = (ex, g, tr')" by (cases ?L) auto
  from assms run L obtain parsed where ex: "ex = Parsed parsed"
    by (cases ex) (auto split: sum.splits)
  from assms run L ex obtain ids where
    n: "normalizeTestCase
          (spread_with parsed ''testId''
             (or_else (get_prop parsed ''testId'') (get_prop testCase ''testId'')))
          0 None = Inr (r, ids)"
    and s: "snd ?R = tr'"
    by (auto split: sum.splits)
  from n have "ids = None" by (auto simp: normalizeTestCase_def Let_def split: if_splits)
  with n refine_loop_parsed [OF L [unfolded ex]] s show ?thesis by auto
qed

subsection \<open>Cleaning of arbitrary fenced and plain text\<close>

lemma not_json_tag_hd:
  assumes "s = c # t" and "c \<noteq> CHR ''j''" and "c \<noteq> CHR ''J''"
  shows "\<not> json_tag (take 4 s)"
proof
  assume "json_tag (take 4 s)"
  then have "json_tag (c # take 3 t)" unfolding assms(1) by simp
  then have "c = CHR ''j'' \<or> c = CHR ''J''" by (rule json_tag_hd)
  with assms(2,3) show False by simp
qed

lemma space_not_j:
  assumes "is_space c"
  shows "c \<noteq> CHR ''j''" "c \<noteq> CHR ''J''"
  using is_space_enum [OF assms] by (elim disjE; simp)+

lemma strip_fences_body:
  assumes ne: "B \<noteq> []" and h: "\<not> is_space (hd B)" and l: "\<not> is_space (last B)"
    and t: "tag = [] \<and> hd B \<noteq> CHR ''j'' \<and> hd B \<noteq> CHR ''J'' \<or> json_tag tag"
    and w1: "\<forall>c \<in> set w1. is_space c" and w2: "\<forall>c \<in> set w2. is_space c"
  shows "strip_trailing_fence (strip_leading_fence (fence @ tag @ w1 @ B @ w2 @ fence)) = B"
proof -
  let ?rest = "w1 @ B @ w2 @ fence"
  from ne obtain b B' where B: "B = b # B'" by (cases B) auto
  have tagged: "(if json_tag (take 4 (tag @ ?rest)) then drop 4 (tag @ ?rest) else tag @ ?rest)
                = ?rest"
  proof (cases "json_tag tag")
    case True
    then have "length tag = 4" by (rule json_tag_length)
    with True show ?thesis by simp
  next
    case False
    with t have e: "tag = []" and j: "hd B \<noteq> CHR ''j''" "hd B \<noteq> CHR ''J''" by simp_all
    have "\<not> json_tag (take 4 ?rest)"
    proof (cases w1)
      case Nil
      have r: "?rest = b # (B' @ w2 @ fence)" unfolding Nil B by simp
      from j have "b \<noteq> CHR ''j''" "b \<noteq> CHR ''J''" unfolding B by simp_all
      with r show ?thesis by (rule not_json_tag_hd)
    next
      case (Cons c0 w')
      with w1 have "is_space c0" by simp
      then have c0: "c0 \<noteq> CHR ''j''" "c0 \<noteq> CHR ''J''" by (rule space_not_j)+
      have "?rest = c0 # (w' @ B @ w2 @ fence)" unfolding Cons by simp
      then show ?thesis using c0 by (rule not_json_tag_hd)
    qed
    with e show ?thesis by simp
  qed
  have lead: "strip_leading_fence (fence @ tag @ ?rest) = dropWhile is_space ?rest"
    unfolding strip_leading_fence_def using tagged by (simp add: Let_def)
  have "dropWhile is_space ?rest = dropWhile is_space (B @ w2 @ fence)"
    using w1 by (rule dropWhile_spaces_prefix)
  also have "\<dots> = B @ w2 @ fence" using h unfolding B by simp
  finally have lead': "strip_leading_fence (fence @ tag @ ?rest) = (B @ w2) @ fence"
    using lead by simp
  have ew: "endsWith ((B @ w2) @ fence) fence" by (simp add: endsWith_def)
  from ne l have e: "dropWhile is_space (rev B) = rev B"
    by (cases "rev B") (simp_all add: hd_rev)
  have "strip_trailing_fence ((B @ w2) @ fence) = rev (dropWhile is_space (rev (B @ w2)))"
    unfolding strip_trailing_fence_def using ew by simp
  also have "\<dots> = rev (dropWhile is_space (rev w2 @ rev B))" by simp
  also have "\<dots> = rev (dropWhile is_space (rev B))"
    using dropWhile_spaces_rev_prefix [OF w2] by simp
  also have "\<dots> = B" using e by simp
  finally show ?thesis unfolding lead' .
qed

lemma clean_fenced_body:
  assumes ne: "B \<noteq> []" and h: "\<not> is_space (hd B)" and l: "\<not> is_space (last B)"
    and t: "tag = [] \<and> hd B \<noteq> CHR ''j'' \<and> hd B \<noteq> CHR ''J'' \<or> json_tag tag"
    and w0: "\<forall>c \<in> set w0. is_space c" and w1: "\<forall>c \<in> set w1. is_space c"
    and w2: "\<forall>c \<in> set w2. is_space c" and w3: "\<forall>c \<in> set w3. is_space c"
  shows "cleanLLMJsonResponse (w0 @ fence @ tag @ w1 @ B @ w2 @ fence @ w3) = fix_missing_comma B"
proof -
  have tr: "trim (w0 @ fence @ (tag @ w1 @ B @ w2) @ fence @ w3)
            = fence @ (tag @ w1 @ B @ w2) @ fence"
    using w0 w3 by (rule trim_fenced)
  have sw: "startsWith (fence @ (tag @ w1 @ B @ w2) @ fence) fence" by simp
  have st: "strip_trailing_fence (strip_leading_fence (fence @ (tag @ w1 @ B @ w2) @ fence)) = B"
    using strip_fences_body [OF ne h l t w1 w2] by simp
  have "cleanLLMJsonResponse (w0 @ fence @ (tag @ w1 @ B @ w2) @ fence @ w3) = fix_missing_comma B"
    unfolding cleanLLMJsonResponse_def Let_def tr using sw st by simp
  then show ?thesis by simp
qed

lemma clean_plain_body:
  assumes ne: "B \<noteq> []" and h: "\<not> is_space (hd B)" and l: "\<not> is_space (last B)"
    and f: "\<not> startsWith B fence"
    and w0: "\<forall>c \<in> set w0. is_space c" and w3: "\<forall>c \<in> set w3. is_space c"
  shows "cleanLLMJsonResponse (w0 @ B @ w3) = fix_missing_comma B"
  unfolding cleanLLMJsonResponse_def Let_def trim_core [OF ne h l w0 w3] using f by simp

lemma fix_missing_comma_rewrite:
  assumes u1: "\<forall>c \<in> set u1. is_space c" and u2: "\<forall>c \<in> set u2. is_space c"
    and x: "\<forall>c \<in> set x. c \<noteq> CHR 0x22"
    and pre: "\<forall>i < length pre. match_defect
            (drop i (pre @ ''\"preconditions\":'' @ u1 @ [CHR 0x22] @ x @ [CHR 0x22] @ u2
                       @ ''\"steps\"'' @ r)) = None"
  shows "fix_missing_comma (pre @ ''\"preconditions\":'' @ u1 @ [CHR 0x22] @ x @ [CHR 0x22] @ u2
                             @ ''\"steps\"'' @ r)
         = pre @ ''\"preconditions\": \"'' @ x @ ''\", \"steps\"'' @ fix_missing_comma r"
proof -
  let ?m = "defect_head @ u1 @ [CHR 0x22] @ x @ [CHR 0x22] @ u2 @ steps_key @ r"
  have e: "''\"preconditions\":'' @ u1 @ [CHR 0x22] @ x @ [CHR 0x22] @ u2 @ ''\"steps\"'' @ r = ?m"
    by (simp add: defect_head_def steps_key_def)
  from pre have pre': "\<forall>i < length pre. match_defect (drop i (pre @ ?m)) = None"
    unfolding e by blast
  have "fix_from 0 (pre @ ?m) = pre @ fix_from 0 ?m" using pre' by (rule fix_prefix)
  also have "\<dots> = pre @ defect_replacement x @ fix_from 0 r"
    using fix_defect [OF u1 u2 x, of r] by simp
  finally have "fix_missing_comma (pre @ ?m) = pre @ defect_replacement x @ fix_missing_comma r"
    by (simp add: fix_missing_comma_def)
  then show ?thesis unfolding e by (simp add: defect_replacement_def)
qed

subsection \<open>Runs of the incremental generation route\<close>

lemma context_for_prompt_small:
  "estimateTokens (JSON_stringify2 (JArr xs)) \<le> TOKEN_LIMIT_THRESHOLD \<Longrightarrow>
   context_for_prompt be tr xs p = (Inr xs, tr)"
  by (simp add: context_for_prompt_def Let_def)

lemma context_for_prompt_parses:
  "parses (snd (context_for_prompt be tr xs p)) = parses tr"
  by (simp add: context_for_prompt_def summarizeExistingTestCases_def generate_def Let_def
           split: sum.split prod.split)

lemma createProvider_provider: "createProvider config = Inr p \<Longrightarrow> \<not> missing (provider config)"
  by (auto simp: createProvider_def missing_def split: if_splits)

lemma add_more_cases_run:
  assumes "\<not> blank summ" and "\<not> blank followUpPrompt"
    and "createProvider config = Inr p"
    and "context_for_prompt be no_trace (tc # tcs) p = (ctx, tr0)"
    and "be (length (calls tr0)) p
           (generateAddMoreTestCasesPrompt summ ctx followUpPrompt
              (case cnt of None \<Rightarrow> 5 | Some n \<Rightarrow> if n = 0 then 5 else n)) = Inr result"
  shows "add_more_cases be summ (JArr (tc # tcs)) followUpPrompt cnt config =
     (case parse_batch (content result) (tc # tcs)
             (tr0\<lparr> calls := calls tr0 @
                  [(p, generateAddMoreTestCasesPrompt summ ctx followUpPrompt
                         (case cnt of None \<Rightarrow> 5 | Some n \<Rightarrow> if n = 0 then 5 else n))] \<rparr>) of
        (Inl e, tr') \<Rightarrow>
          (Failure 500 (''Failed to parse LLM response: '' @ message e) (Some (content result)), tr')
      | (Inr new, tr') \<Rightarrow>
          (Success (Cases new (length new) (tokenUsage result) None), tr'))"
  using assms createProvider_provider [OF assms(3)]
  by (simp add: add_more_cases_def generate_def Let_def)

lemma refine_test_case_repair:
  assumes ok: "\<not> blank summ" "truthy testCase" "\<not> blank followup"
      "createProvider config = Inr p"
      "be 0 p (refineTestCasePrompt summ testCase followup) = Inr r0"
    and fail: "parseTestCaseFromLLM (extract_object (trim (content r0))) = Inl e0"
  shows "refine_test_case be config summ testCase followup =
     (case be 1 p (generateJsonCorrectionPrompt (extract_object (trim (content r0))) (message e0)
                     refine_system) of
        Inl correctionError \<Rightarrow>
          (Failure 500
             ''Failed to parse refined test case: Failed to parse JSON after all attempts''
             (Some (content r0)),
           \<lparr> calls = [(p, refineTestCasePrompt summ testCase followup),
                      (p, generateJsonCorrectionPrompt (extract_object (trim (content r0)))
                            (message e0) refine_system)],
             parses = [extract_object (trim (content r0))] \<rparr>)
      | Inr r1 \<Rightarrow>
          (Failure 500 (''Failed to parse refined test case: '' @ message e0) (Some (content r1)),
           \<lparr> calls = [(p, refineTestCasePrompt summ testCase followup),
                      (p, generateJsonCorrectionPrompt (extract_object (trim (content r0)))
                            (message e0) refine_system)],
             parses = [extract_object (trim (content r0)), extract_object (trim (content r0))] \<rparr>))"
proof -
  let ?c0 = "extract_object (trim (content r0))"
  let ?corr = "generateJsonCorrectionPrompt ?c0 (message e0) refine_system"
  let ?p0 = "refineTestCasePrompt summ testCase followup"
  let ?tr0 = "\<lparr> calls = [(p, ?p0)], parses = [] \<rparr>"
  have second: "refine_loop be p refine_system 1 ?c0 g tr
                = (Thrown e0, g, parsing tr ?c0)" for g tr
    by (simp only: refine_loop_second extract_object_idem fail sum.case)
  have second': "refine_loop be p refine_system (Suc 0) ?c0 g tr
                = (Thrown e0, g, parsing tr ?c0)" for g tr
    using second [of g tr] by simp
  have first: "refine_loop be p refine_system 0 (trim (content r0)) (content r0) ?tr0 =
     (case be 1 p ?corr of
        Inl ce \<Rightarrow> (NotParsed, content r0, \<lparr> calls = [(p, ?p0), (p, ?corr)], parses = [?c0] \<rparr>)
      | Inr r1 \<Rightarrow> (Thrown e0, content r1,
                   \<lparr> calls = [(p, ?p0), (p, ?corr)], parses = [?c0, ?c0] \<rparr>))"
    by (simp add: refine_loop_first fail generate_def parsing_def second' split: sum.split)
  show ?thesis
    unfolding refine_test_case_run [of summ testCase followup config p be r0, OF ok] first
    by (simp split: sum.split)
qed

subsection \<open>The context of the incremental prompt\<close>

lemma context_for_prompt_large:
  assumes "estimateTokens (JSON_stringify2 (JArr xs)) > TOKEN_LIMIT_THRESHOLD"
  shows "context_for_prompt be tr xs p =
     (case be (length (calls tr)) p (summarize_prompt (JSON_stringify2 (JArr xs))) of
        Inr res \<Rightarrow>
          (Inl (trim (content res)),
           tr\<lparr> calls := calls tr @ [(p, summarize_prompt (JSON_stringify2 (JArr xs)))] \<rparr>)
      | Inl err \<Rightarrow>
          (Inl (''Summary of '' @ string_of_nat (length xs) @ '' existing test cases:\<newline>''
                @ take 2000 (JSON_stringify2 (JArr xs)) @ ''...''),
           tr\<lparr> calls := calls tr @ [(p, summarize_prompt (JSON_stringify2 (JArr xs)))] \<rparr>))"
  using assms
  by (simp add: context_for_prompt_def summarizeExistingTestCases_def generate_def Let_def
        substring0_def split: sum.split)

lemma add_more_cases_calls:
  assumes "\<not> blank summ" and "\<not> blank followUpPrompt"
    and "createProvider config = Inr p"
  shows "calls (snd (add_more_cases be summ (JArr (tc # tcs)) followUpPrompt cnt config))
         = calls (snd (context_for_prompt be no_trace (tc # tcs) p))
           @ [(p, generateAddMoreTestCasesPrompt summ
                    (fst (context_for_prompt be no_trace (tc # tcs) p)) followUpPrompt
                    (case cnt of None \<Rightarrow> 5 | Some n \<Rightarrow> if n = 0 then 5 else n))]"
proof -
  obtain ctx tr0 where c: "context_for_prompt be no_trace (tc # tcs) p = (ctx, tr0)"
    by (cases "context_for_prompt be no_trace (tc # tcs) p") auto
  show ?thesis
    using assms createProvider_provider [OF assms(3)]
    by (simp add: add_more_cases_def c generate_def parse_batch_def parsing_def Let_def
          split: sum.split)
qed

lemma concat_replicate_single: "concat (replicate n [c]) = replicate n c"
  by (induction n) simp_all

lemma JSON_quote_replicate:
  "JSON_quote (replicate n (CHR ''a'')) = CHR 0x22 # replicate n (CHR ''a'') @ [CHR 0x22]"
  by (simp add: JSON_quote_def quote_char_def concat_replicate_single)

lemma JSON_quote_title: "JSON_quote ''title'' = [CHR 0x22] @ ''title'' @ [CHR 0x22]"
  by code_simp

lemma long_title_length:
  "length (JSON_stringify2 (JArr [JObj [(''title'', JStr (replicate n (CHR ''a'')))]])) = n + 27"
  by (simp add: JSON_stringify2_def JSON_quote_replicate JSON_quote_title Let_def)

section \<open>Claims\<close>

text \<open>
  C9: for every input string estimateTokens returns the ceiling of a quarter of the
  length; the empty string gives 0; and the estimate is non-decreasing in the length
  of the input.
\<close>

theorem estimateTokens_ceil_mono:
  "estimateTokens s = nat \<lceil>real (length s) / 4\<rceil>
   \<and> estimateTokens [] = 0
   \<and> (length s \<le> length t \<longrightarrow> estimateTokens s \<le> estimateTokens t)"
proof -
  have a: "estimateTokens s = nat \<lceil>real (length s) / 4\<rceil>"
    by (simp add: estimateTokens_def)
  have b: "estimateTokens [] = 0"
    by (simp add: estimateTokens_def)
  have c: "length s \<le> length t \<longrightarrow> estimateTokens s \<le> estimateTokens t"
    by (auto simp: estimateTokens_div intro: div_le_mono)
  from a b c show ?thesis by blast
qed

theorem estimateTokens_ceil_mono_witness:
  "estimateTokens ''abcde'' = nat \<lceil>real (length ''abcde'') / 4\<rceil>
   \<and> estimateTokens [] = 0
   \<and> length ''abcde'' \<le> length ''abcdefghi''
   \<and> estimateTokens ''abcde'' = 2 \<and> estimateTokens ''abcdefghi'' = 3
   \<and> estimateTokens ''abcde'' \<le> estimateTokens ''abcdefghi''"
  using estimateTokens_ceil_mono [of "''abcde''" "''abcdefghi''"]
  by (simp add: estimateTokens_div)

text \<open>
  C5: the record normalizer is total on records: for every object, every position and
  every optional set of claimed identifiers it returns a record with all eight fields,
  and an absent field gets its default: title \<open>Test Case n\<close> (with \<open>n = index + 1\<close>),
  the empty string for description, preconditions and expectedResult, the empty array
  for steps whenever the input's steps is not an array, priority Medium, type Functional
  (and, with no claimed set, testId \<open>TC-\<close> followed by the zero-padded \<open>index + 1\<close>).
\<close>

theorem normalizeTestCase_total_defaults:
  "\<exists>r ids'. normalizeTestCase (JObj kvs) index existingIds = Inr (r, ids')
     \<and> (map_of kvs ''title'' = None \<longrightarrow>
            title r = JStr (''Test Case '' @ string_of_nat (index + 1)))
     \<and> (map_of kvs ''description'' = None \<longrightarrow> description r = JStr [])
     \<and> (map_of kvs ''preconditions'' = None \<longrightarrow> preconditions r = JStr [])
     \<and> (map_of kvs ''expectedResult'' = None \<longrightarrow> expectedResult r = JStr [])
     \<and> (\<not> isArray (get_prop (JObj kvs) ''steps'') \<longrightarrow> steps r = JArr [])
     \<and> (isArray (get_prop (JObj kvs) ''steps'') \<longrightarrow> steps r = get_prop (JObj kvs) ''steps'')
     \<and> (map_of kvs ''priority'' = None \<longrightarrow> priority r = JStr ''Medium'')
     \<and> (map_of kvs ''type'' = None \<longrightarrow> type r = JStr ''Functional'')
     \<and> (map_of kvs ''testId'' = None \<and> existingIds = None \<longrightarrow>
            testId r = JStr (''TC-'' @ padStart (string_of_nat (index + 1)) 3 (CHR ''0'')))"
proof -
  obtain r ids' where r: "normalizeTestCase (JObj kvs) index existingIds = Inr (r, ids')"
    by (simp add: normalizeTestCase_def Let_def)
  then have f: "title r = or_else (get_prop (JObj kvs) ''title'')
                            (JStr (''Test Case '' @ string_of_nat (index + 1)))"
    "description r = or_else (get_prop (JObj kvs) ''description'') (JStr [])"
    "preconditions r = or_else (get_prop (JObj kvs) ''preconditions'') (JStr [])"
    "expectedResult r = or_else (get_prop (JObj kvs) ''expectedResult'') (JStr [])"
    "steps r = (if isArray (get_prop (JObj kvs) ''steps'') then get_prop (JObj kvs) ''steps''
                else JArr [])"
    "priority r = or_else (get_prop (JObj kvs) ''priority'') (JStr ''Medium'')"
    "type r = or_else (get_prop (JObj kvs) ''type'') (JStr ''Functional'')"
    "existingIds = None \<longrightarrow>
       testId r = or_else (get_prop (JObj kvs) ''testId'') (JStr (tc_label (index + 1)))"
    by (auto simp: normalizeTestCase_def Let_def)
  have 1: "map_of kvs ''title'' = None \<longrightarrow>
            title r = JStr (''Test Case '' @ string_of_nat (index + 1))"
    by (simp add: f or_else_def)
  have 2: "map_of kvs ''description'' = None \<longrightarrow> description r = JStr []"
    by (simp add: f or_else_def)
  have 3: "map_of kvs ''preconditions'' = None \<longrightarrow> preconditions r = JStr []"
    by (simp add: f or_else_def)
  have 4: "map_of kvs ''expectedResult'' = None \<longrightarrow> expectedResult r = JStr []"
    by (simp add: f or_else_def)
  have 5: "\<not> isArray (get_prop (JObj kvs) ''steps'') \<longrightarrow> steps r = JArr []"
    by (simp add: f)
  have 6: "isArray (get_prop (JObj kvs) ''steps'') \<longrightarrow> steps r = get_prop (JObj kvs) ''steps''"
    by (simp add: f)
  have 7: "map_of kvs ''priority'' = None \<longrightarrow> priority r = JStr ''Medium''"
    by (simp add: f or_else_def)
  have 8: "map_of kvs ''type'' = None \<longrightarrow> type r = JStr ''Functional''"
    by (simp add: f or_else_def)
  have 9: "map_of kvs ''testId'' = None \<and> existingIds = None \<longrightarrow>
            testId r = JStr (''TC-'' @ padStart (string_of_nat (index + 1)) 3 (CHR ''0''))"
    using f(8) by (simp add: or_else_def tc_label_def)
  show ?thesis
    by (rule exI [of _ r], rule exI [of _ ids'], intro conjI) (rule r 1 2 3 4 5 6 7 8 9)+
qed


theorem normalizeTestCase_total_defaults_witness:
  "normalizeTestCase (JObj []) 0 None =
     Inr (\<lparr> testId = JStr ''TC-001'', title = JStr ''Test Case 1'', description = JStr [],
             preconditions = JStr [], steps = JArr [], expectedResult = JStr [],
             priority = JStr ''Medium'', type = JStr ''Functional'' \<rparr>, None)
   \<and> normalizeTestCase (JObj [(''title'', JStr ''Login''), (''steps'', JStr ''1. open'')]) 6 None =
     Inr (\<lparr> testId = JStr ''TC-007'', title = JStr ''Login'', description = JStr [],
             preconditions = JStr [], steps = JArr [], expectedResult = JStr [],
             priority = JStr ''Medium'', type = JStr ''Functional'' \<rparr>, None)"
proof -
  have a: "string_of_nat 1 = ''1''" "string_of_nat 7 = ''7''" by code_simp+
  have b: "padStart ''1'' 3 (CHR ''0'') = ''001''" "padStart ''7'' 3 (CHR ''0'') = ''007''"
    by code_simp+
  from normalizeTestCase_total_defaults [of "[]" 0 None]
  obtain r ids' where r: "normalizeTestCase (JObj []) 0 None = Inr (r, ids')"
    "title r = JStr (''Test Case '' @ string_of_nat (0 + 1))"
    "description r = JStr []" "preconditions r = JStr []" "expectedResult r = JStr []"
    "steps r = JArr []" "priority r = JStr ''Medium''" "type r = JStr ''Functional''"
    "testId r = JStr (''TC-'' @ padStart (string_of_nat (0 + 1)) 3 (CHR ''0''))"
    by auto
  have "ids' = None" using r(1) by (simp add: normalizeTestCase_def Let_def)
  with r a b have c: "normalizeTestCase (JObj []) 0 None =
     Inr (\<lparr> testId = JStr ''TC-001'', title = JStr ''Test Case 1'', description = JStr [],
             preconditions = JStr [], steps = JArr [], expectedResult = JStr [],
             priority = JStr ''Medium'', type = JStr ''Functional'' \<rparr>, None)"
    by (cases r) simp
  have d: "normalizeTestCase (JObj [(''title'', JStr ''Login''), (''steps'', JStr ''1. open'')]) 6 None =
     Inr (\<lparr> testId = JStr ''TC-007'', title = JStr ''Login'', description = JStr [],
             preconditions = JStr [], steps = JArr [], expectedResult = JStr [],
             priority = JStr ''Medium'', type = JStr ''Functional'' \<rparr>, None)"
    by code_simp
  from c d show ?thesis by blast
qed

text \<open>
  C4: with a set of claimed identifiers the normalizer returns, for every readable
  record, an identifier that is not claimed and adds it to the set; a record without an
  identifier of its own gets the first unclaimed label probing from \<open>index + 1\<close> upwards
  (every earlier label is claimed), and a record whose own identifier is claimed gets
  that label too. With claimed identifiers TC-001 and TC-002, an empty record at
  position 2 gets TC-003. Normalizing a batch against an existing working set gives
  pairwise distinct identifiers, none of them an identifier of the existing set, and
  never fails on records.
\<close>

theorem normalizeTestCase_probes_unclaimed_id:
  "(readable tc \<longrightarrow>
      (\<exists>r k. normalizeTestCase tc index (Some ids) = Inr (r, Some (ids @ [testId r]))
         \<and> \<not> set_has ids (testId r)
         \<and> (\<forall>j < k. set_has ids (JStr (tc_label (index + 1 + j))))
         \<and> (\<not> truthy (get_prop tc ''testId'') \<longrightarrow> testId r = JStr (tc_label (index + 1 + k)))
         \<and> (truthy (get_prop tc ''testId'') \<longrightarrow>
               testId r = (if set_has ids (get_prop tc ''testId'')
                           then JStr (tc_label (index + 1 + k)) else get_prop tc ''testId''))))
   \<and> (\<exists>r. normalizeTestCase (JObj []) 2 (Some [JStr ''TC-001'', JStr ''TC-002'']) =
              Inr (r, Some [JStr ''TC-001'', JStr ''TC-002'', JStr ''TC-003''])
            \<and> testId r = JStr ''TC-003'')
   \<and> ((\<forall>tc \<in> set tcs. string_or_absent (get_prop tc ''testId''))
        \<and> normalizeTestCases tcs existing = Inr rs \<longrightarrow>
          length rs = length tcs
        \<and> distinct (map testId rs)
        \<and> (\<forall>r \<in> set rs. \<forall>e \<in> set existing. testId r \<noteq> get_prop e ''testId''))
   \<and> ((\<forall>tc \<in> set tcs. readable tc) \<and> (\<forall>e \<in> set existing. readable e) \<longrightarrow>
          (\<exists>rs. normalizeTestCases tcs existing = Inr rs))"
proof -
  have part1: "readable tc \<longrightarrow>
      (\<exists>r k. normalizeTestCase tc index (Some ids) = Inr (r, Some (ids @ [testId r]))
         \<and> \<not> set_has ids (testId r)
         \<and> (\<forall>j < k. set_has ids (JStr (tc_label (index + 1 + j))))
         \<and> (\<not> truthy (get_prop tc ''testId'') \<longrightarrow> testId r = JStr (tc_label (index + 1 + k)))
         \<and> (truthy (get_prop tc ''testId'') \<longrightarrow>
               testId r = (if set_has ids (get_prop tc ''testId'')
                           then JStr (tc_label (index + 1 + k)) else get_prop tc ''testId'')))"
  proof
    assume rd: "readable tc"
    let ?own = "or_else (get_prop tc ''testId'') (JStr (tc_label (index + 1)))"
    let ?t = "probe_id ids ?own (index + 1)"
    let ?k = "probes_left ids (index + 1)"
    from normalizeTestCase_Some [OF rd, of index ids]
    obtain r where r: "normalizeTestCase tc index (Some ids) = Inr (r, Some (set_add ids ?t))"
      and rt: "testId r = ?t" by blast
    have free: "\<not> set_has ids (testId r)" by (simp add: rt probe_id_free)
    then have add: "set_add ids ?t = ids @ [testId r]" by (simp add: set_add_def rt)
    have a: "normalizeTestCase tc index (Some ids) = Inr (r, Some (ids @ [testId r]))"
      using r add by simp
    have b: "\<forall>j < ?k. set_has ids (JStr (tc_label (index + 1 + j)))"
      using probes_left_spec [of ids "index + 1"] by blast
    have lab: "set_has ids t \<Longrightarrow> probe_id ids t (index + 1) = JStr (tc_label (index + 1 + ?k))" for t
      by (rule probe_id_label)
    have c: "\<not> truthy (get_prop tc ''testId'') \<longrightarrow> testId r = JStr (tc_label (index + 1 + ?k))"
    proof
      assume "\<not> truthy (get_prop tc ''testId'')"
      then have t0: "?own = JStr (tc_label (index + 1))" by (simp add: or_else_def)
      show "testId r = JStr (tc_label (index + 1 + ?k))"
      proof (cases "set_has ids (JStr (tc_label (index + 1)))")
        case True
        show ?thesis unfolding rt t0 using True by (rule lab)
      next
        case False
        show ?thesis unfolding rt t0 using False by (simp add: probe_id_keep probes_left_zero)
      qed
    qed
    have d: "truthy (get_prop tc ''testId'') \<longrightarrow>
               testId r = (if set_has ids (get_prop tc ''testId'')
                           then JStr (tc_label (index + 1 + ?k)) else get_prop tc ''testId'')"
    proof
      assume "truthy (get_prop tc ''testId'')"
      then have t0: "?own = get_prop tc ''testId''" by (simp add: or_else_def)
      show "testId r = (if set_has ids (get_prop tc ''testId'')
                           then JStr (tc_label (index + 1 + ?k)) else get_prop tc ''testId'')"
        unfolding rt t0 using lab [of "get_prop tc ''testId''"]
        by (simp add: probe_id_keep)
    qed
    show "\<exists>r k. normalizeTestCase tc index (Some ids) = Inr (r, Some (ids @ [testId r]))
         \<and> \<not> set_has ids (testId r)
         \<and> (\<forall>j < k. set_has ids (JStr (tc_label (index + 1 + j))))
         \<and> (\<not> truthy (get_prop tc ''testId'') \<longrightarrow> testId r = JStr (tc_label (index + 1 + k)))
         \<and> (truthy (get_prop tc ''testId'') \<longrightarrow>
               testId r = (if set_has ids (get_prop tc ''testId'')
                           then JStr (tc_label (index + 1 + k)) else get_prop tc ''testId''))"
      by (rule exI [of _ r], rule exI [of _ ?k], intro conjI) (rule a free b c d)+
  qed
  have part2: "\<exists>r. normalizeTestCase (JObj []) 2 (Some [JStr ''TC-001'', JStr ''TC-002'']) =
              Inr (r, Some [JStr ''TC-001'', JStr ''TC-002'', JStr ''TC-003''])
            \<and> testId r = JStr ''TC-003''"
  proof -
    have "normalizeTestCase (JObj []) 2 (Some [JStr ''TC-001'', JStr ''TC-002'']) =
       Inr (\<lparr> testId = JStr ''TC-003'', title = JStr ''Test Case 3'', description = JStr [],
               preconditions = JStr [], steps = JArr [], expectedResult = JStr [],
               priority = JStr ''Medium'', type = JStr ''Functional'' \<rparr>,
            Some [JStr ''TC-001'', JStr ''TC-002'', JStr ''TC-003''])"
      by code_simp
    then show ?thesis by simp
  qed
  have part3: "(\<forall>tc \<in> set tcs. string_or_absent (get_prop tc ''testId''))
        \<and> normalizeTestCases tcs existing = Inr rs \<longrightarrow>
          length rs = length tcs
        \<and> distinct (map testId rs)
        \<and> (\<forall>r \<in> set rs. \<forall>e \<in> set existing. testId r \<noteq> get_prop e ''testId'')"
  proof
    assume h: "(\<forall>tc \<in> set tcs. string_or_absent (get_prop tc ''testId''))
        \<and> normalizeTestCases tcs existing = Inr rs"
    then obtain vs where vs: "map_testId existing = Inr vs"
      and ne: "normalize_each tcs (length existing) 0 (new_Set vs) = Inr rs"
      by (auto simp: normalizeTestCases_def split: sum.splits)
    from h have ok: "\<forall>tc \<in> set tcs. string_or_absent (get_prop tc ''testId'')" by simp
    from normalize_each_ids [OF ok ne]
    have x: "distinct (map testId rs)" "\<forall>r \<in> set rs. testId r \<notin> set (new_Set vs)"
      "length rs = length tcs" by blast+
    have "set (new_Set vs) = (\<lambda>tc. get_prop tc ''testId'') ` set existing"
      using map_testId_Inr [OF vs] by (simp add: set_new_Set)
    with x(2) have y: "\<forall>r \<in> set rs. \<forall>e \<in> set existing. testId r \<noteq> get_prop e ''testId''"
      by auto
    show "length rs = length tcs
        \<and> distinct (map testId rs)
        \<and> (\<forall>r \<in> set rs. \<forall>e \<in> set existing. testId r \<noteq> get_prop e ''testId'')"
      by (intro conjI) (rule x y)+
  qed
  have each_total: "\<forall>tc \<in> set ts. readable tc \<Longrightarrow> \<exists>rs. normalize_each ts len i ids = Inr rs"
    for ts len i ids
  proof (induction ts arbitrary: i ids)
    case Nil
    show ?case by simp
  next
    case (Cons t ts)
    then have rd: "readable t" by simp
    from normalizeTestCase_Some [OF rd, of "len + i + 1" ids]
    obtain r ids' where r: "normalizeTestCase t (len + i + 1) (Some ids) = Inr (r, Some ids')"
      by blast
    from Cons have "\<exists>rs. normalize_each ts len (i + 1) ids' = Inr rs" by simp
    then obtain rs where "normalize_each ts len (i + 1) ids' = Inr rs" by blast
    with r show ?case by simp
  qed
  have part4: "(\<forall>tc \<in> set tcs. readable tc) \<and> (\<forall>e \<in> set existing. readable e) \<longrightarrow>
          (\<exists>rs. normalizeTestCases tcs existing = Inr rs)"
  proof
    assume h: "(\<forall>tc \<in> set tcs. readable tc) \<and> (\<forall>e \<in> set existing. readable e)"
    then obtain vs where vs: "map_testId existing = Inr vs"
      using map_testId_total by blast
    from h each_total [of tcs "length existing" 0 "new_Set vs"]
    show "\<exists>rs. normalizeTestCases tcs existing = Inr rs"
      by (simp add: normalizeTestCases_def vs)
  qed
  show ?thesis
    by (intro conjI) (rule part1 part2 part3 part4)+
qed


theorem normalizeTestCase_probes_unclaimed_id_witness:
  "readable (JObj [(''testId'', JStr ''TC-001'')])
   \<and> string_or_absent (get_prop (JObj []) ''testId'')
   \<and> string_or_absent (get_prop (JObj [(''testId'', JStr ''TC-001'')]) ''testId'')
   \<and> string_or_absent (get_prop (JObj [(''testId'', JStr ''TC-005'')]) ''testId'')
   \<and> map testId (projr (normalizeTestCases
         [JObj [], JObj [(''testId'', JStr ''TC-001'')], JObj [(''testId'', JStr ''TC-005'')]]
         [JObj [(''testId'', JStr ''TC-001'')], JObj [(''testId'', JStr ''TC-004'')]]))
       = [JStr ''TC-005'', JStr ''TC-006'', JStr ''TC-007'']
   \<and> distinct (map testId (projr (normalizeTestCases
         [JObj [], JObj [(''testId'', JStr ''TC-001'')], JObj [(''testId'', JStr ''TC-005'')]]
         [JObj [(''testId'', JStr ''TC-001'')], JObj [(''testId'', JStr ''TC-004'')]])))
   \<and> snd (projr (normalizeTestCase (JObj [(''testId'', JStr ''TC-001'')]) 0
               (Some [JStr ''TC-001'', JStr ''TC-002''])))
       = Some [JStr ''TC-001'', JStr ''TC-002'', JStr ''TC-003'']"
proof -
  let ?tc = "JObj [(''testId'', JStr ''TC-001'')]"
  let ?ids = "[JStr ''TC-001'', JStr ''TC-002'']"
  let ?tcs = "[JObj [], JObj [(''testId'', JStr ''TC-001'')], JObj [(''testId'', JStr ''TC-005'')]]"
  let ?ex = "[JObj [(''testId'', JStr ''TC-001'')], JObj [(''testId'', JStr ''TC-004'')]]"
  let ?rs = "projr (normalizeTestCases ?tcs ?ex)"
  note t = normalizeTestCase_probes_unclaimed_id [of ?tc 0 ?ids ?tcs ?ex ?rs]
  have rd: "readable ?tc" by simp
  have s1: "string_or_absent (get_prop (JObj []) ''testId'')" by simp
  have s2: "string_or_absent (get_prop (JObj [(''testId'', JStr ''TC-001'')]) ''testId'')" by simp
  have s3: "string_or_absent (get_prop (JObj [(''testId'', JStr ''TC-005'')]) ''testId'')" by simp
  have ok: "\<forall>tc \<in> set ?tcs. string_or_absent (get_prop tc ''testId'') \<and> readable tc" by simp
  have ex: "\<forall>e \<in> set ?ex. readable e" by simp
  have ids: "map testId ?rs = [JStr ''TC-005'', JStr ''TC-006'', JStr ''TC-007'']"
    by code_simp
  from t ok ex obtain rs where "normalizeTestCases ?tcs ?ex = Inr rs" by auto
  then have run: "normalizeTestCases ?tcs ?ex = Inr ?rs" by simp
  from t ok run have d: "distinct (map testId ?rs)" by simp
  have one: "snd (projr (normalizeTestCase ?tc 0 (Some ?ids)))
       = Some [JStr ''TC-001'', JStr ''TC-002'', JStr ''TC-003'']"
    by code_simp
  show ?thesis
    by (intro conjI) (rule rd s1 s2 s3 ids d one)+
qed

text \<open>
  C8, as stated, fails for the batch contract: the batch parse accepts an array whose
  elements are not objects.
\<close>

theorem parseTestCasesFromLLM_accepts_non_objects:
  "parseTestCasesFromLLM ''[1, 2]'' = Inr [JNum ''1'', JNum ''2'']"
  by code_simp

text \<open>
  C8, amended: the structural parse checks the top-level shape only. The batch parse
  succeeds exactly when the cleaned text is JSON for an array, whatever its elements, and
  fails for every other parsed value; the refinement parse succeeds exactly when the
  cleaned text is JSON for an object, and fails when the parsed value is an array, null
  or not an object. Text that is not JSON fails both.
\<close>

theorem parse_shape_checks:
  "(parseTestCasesFromLLM text = Inr xs
      \<longleftrightarrow> JSON_parse (cleanLLMJsonResponse text) = Some (JArr xs))
   \<and> (JSON_parse (cleanLLMJsonResponse text) = Some v \<and> \<not> isArray v \<longrightarrow>
        parseTestCasesFromLLM text = Inl (Error ''LLM response is not a valid array of test cases''))
   \<and> (JSON_parse (cleanLLMJsonResponse text) = None \<longrightarrow>
        parseTestCasesFromLLM text = Inl (SyntaxError JSON_parse_message)
        \<and> parseTestCaseFromLLM text = Inl (SyntaxError JSON_parse_message))
   \<and> (parseTestCaseFromLLM text = Inr v
      \<longleftrightarrow> (\<exists>kvs. v = JObj kvs) \<and> JSON_parse (cleanLLMJsonResponse text) = Some v)
   \<and> (JSON_parse (cleanLLMJsonResponse text) = Some v \<and> isArray v \<longrightarrow>
        parseTestCaseFromLLM text = Inl (Error ''Expected single test case object, got array''))
   \<and> (JSON_parse (cleanLLMJsonResponse text) = Some v \<and> \<not> isArray v
        \<and> (v = JNull \<or> \<not> typeof_object v) \<longrightarrow>
        parseTestCaseFromLLM text = Inl (Error ''LLM response is not a valid test case object''))"
proof -
  have 1: "parseTestCasesFromLLM text = Inr xs
      \<longleftrightarrow> JSON_parse (cleanLLMJsonResponse text) = Some (JArr xs)"
    by (simp add: parseTestCasesFromLLM_def split: option.splits jsval.splits)
  have 2: "JSON_parse (cleanLLMJsonResponse text) = Some v \<and> \<not> isArray v \<longrightarrow>
        parseTestCasesFromLLM text = Inl (Error ''LLM response is not a valid array of test cases'')"
    by (cases v) (simp_all add: parseTestCasesFromLLM_def)
  have 3: "JSON_parse (cleanLLMJsonResponse text) = None \<longrightarrow>
        parseTestCasesFromLLM text = Inl (SyntaxError JSON_parse_message)
        \<and> parseTestCaseFromLLM text = Inl (SyntaxError JSON_parse_message)"
    by (simp add: parseTestCasesFromLLM_def parseTestCaseFromLLM_def)
  have 4: "parseTestCaseFromLLM text = Inr v
      \<longleftrightarrow> (\<exists>kvs. v = JObj kvs) \<and> JSON_parse (cleanLLMJsonResponse text) = Some v"
  proof (cases "JSON_parse (cleanLLMJsonResponse text)")
    case None
    then show ?thesis by (simp add: parseTestCaseFromLLM_def)
  next
    case (Some u)
    then show ?thesis by (cases u; cases v) (simp_all add: parseTestCaseFromLLM_def)
  qed
  have 5: "JSON_parse (cleanLLMJsonResponse text) = Some v \<and> isArray v \<longrightarrow>
        parseTestCaseFromLLM text = Inl (Error ''Expected single test case object, got array'')"
    by (simp add: parseTestCaseFromLLM_def)
  have 6: "JSON_parse (cleanLLMJsonResponse text) = Some v \<and> \<not> isArray v
        \<and> (v = JNull \<or> \<not> typeof_object v) \<longrightarrow>
        parseTestCaseFromLLM text = Inl (Error ''LLM response is not a valid test case object'')"
    by (cases v) (simp_all add: parseTestCaseFromLLM_def)
  show ?thesis by (intro conjI) (rule 1 2 3 4 5 6)+
qed

theorem parse_shape_checks_witness:
  "JSON_parse (cleanLLMJsonResponse ''{\"title\": \"a\"}'') = Some (JObj [(''title'', JStr ''a'')])
   \<and> parseTestCasesFromLLM ''{\"title\": \"a\"}''
       = Inl (Error ''LLM response is not a valid array of test cases'')
   \<and> parseTestCaseFromLLM ''{\"title\": \"a\"}'' = Inr (JObj [(''title'', JStr ''a'')])
   \<and> JSON_parse (cleanLLMJsonResponse ''[{\"title\": \"a\"}]'')
       = Some (JArr [JObj [(''title'', JStr ''a'')]])
   \<and> parseTestCaseFromLLM ''[{\"title\": \"a\"}]''
       = Inl (Error ''Expected single test case object, got array'')
   \<and> JSON_parse (cleanLLMJsonResponse ''null'') = Some JNull
   \<and> parseTestCaseFromLLM ''null'' = Inl (Error ''LLM response is not a valid test case object'')
   \<and> JSON_parse (cleanLLMJsonResponse ''[1,'') = None
   \<and> parseTestCaseFromLLM ''[1,'' = Inl (SyntaxError JSON_parse_message)"
proof -
  have p1: "JSON_parse (cleanLLMJsonResponse ''{\"title\": \"a\"}'')
            = Some (JObj [(''title'', JStr ''a'')])" by code_simp
  have p2: "JSON_parse (cleanLLMJsonResponse ''[{\"title\": \"a\"}]'')
            = Some (JArr [JObj [(''title'', JStr ''a'')]])" by code_simp
  have p3: "JSON_parse (cleanLLMJsonResponse ''null'') = Some JNull" by code_simp
  have p4: "JSON_parse (cleanLLMJsonResponse ''[1,'') = None" by code_simp
  from parse_shape_checks [of "''{\"title\": \"a\"}''" "[]" "JObj [(''title'', JStr ''a'')]"] p1
  have a: "parseTestCasesFromLLM ''{\"title\": \"a\"}''
       = Inl (Error ''LLM response is not a valid array of test cases'')"
    and b: "parseTestCaseFromLLM ''{\"title\": \"a\"}'' = Inr (JObj [(''title'', JStr ''a'')])"
    by simp_all
  from parse_shape_checks [of "''[{\"title\": \"a\"}]''" "[]" "JArr [JObj [(''title'', JStr ''a'')]]"] p2
  have c: "parseTestCaseFromLLM ''[{\"title\": \"a\"}]''
       = Inl (Error ''Expected single test case object, got array'')" by simp
  from parse_shape_checks [of "''null''" "[]" JNull] p3
  have d: "parseTestCaseFromLLM ''null'' = Inl (Error ''LLM response is not a valid test case object'')"
    by simp
  from parse_shape_checks [of "''[1,''" "[]" JNull] p4
  have e: "parseTestCaseFromLLM ''[1,'' = Inl (SyntaxError JSON_parse_message)" by simp
  show ?thesis by (intro conjI) (rule p1 a b p2 c p3 d p4 e)+
qed

text \<open>
  C3, as stated, fails: a configuration of kind A (openai) without a model, a
  configuration of kind C (ollama) without model and base URL, and a configuration of
  kind D (gemini) without a model construct an adapter; the constructors apply their
  default values.
\<close>

theorem createProvider_accepts_missing_model:
  "createProvider \<lparr> provider = Some ''openai'', apiKey = Some ''sk-test'', model = None,
                    endpoint = None, deployment = None, apiVersion = None, baseUrl = None \<rparr>
     = Inr (OpenAI ''sk-test'' ''gpt-4o-mini'')
   \<and> createProvider \<lparr> provider = Some ''ollama'', apiKey = None, model = None,
                    endpoint = None, deployment = None, apiVersion = None, baseUrl = None \<rparr>
     = Inr (Ollama ''llama3.1'' ''http://localhost:11434'')
   \<and> createProvider \<lparr> provider = Some ''gemini'', apiKey = Some ''g-test'', model = None,
                    endpoint = None, deployment = None, apiVersion = None, baseUrl = None \<rparr>
     = Inr (Gemini ''g-test'' ''gemini-1.5-flash-latest'')"
  by (simp add: createProvider_def openaiProvider_def ollamaProvider_def geminiProvider_def
        default_to_def missing_def given_def)

text \<open>
  C3, amended: constructing the adapter fails exactly when the key of kind A (openai) or
  kind D (gemini) is missing, when one of apiKey, endpoint, deployment, apiVersion of
  kind B (azure) is missing, or when the kind is unknown; kind C (ollama) requires no
  field. When construction fails, each route returns without any backend call (the
  initial generation with status 400 and the message of the error).
\<close>

theorem createProvider_required_fields:
  "(isl (createProvider config) \<longleftrightarrow>
       (provider config = Some ''openai'' \<and> missing (apiKey config))
     \<or> (provider config = Some ''azure''
          \<and> (missing (apiKey config) \<or> missing (endpoint config) \<or> missing (deployment config)
               \<or> missing (apiVersion config)))
     \<or> (provider config = Some ''gemini'' \<and> missing (apiKey config))
     \<or> provider config \<notin> {Some ''openai'', Some ''azure'', Some ''ollama'', Some ''gemini''})
   \<and> (isl (createProvider config) \<longrightarrow>
         calls (snd (generate_cases be text given_summary config cnt)) = []
       \<and> calls (snd (add_more_cases be summ existing followUp cnt config)) = []
       \<and> calls (snd (refine_test_case be config summ testCase followup)) = []
       \<and> (\<not> blank text \<and> \<not> missing (provider config) \<longrightarrow>
             fst (generate_cases be text given_summary config cnt)
             = Failure 400 (message (projl (createProvider config))) None))"
proof -
  have b: "isl (createProvider config) \<longrightarrow>
         calls (snd (generate_cases be text given_summary config cnt)) = []
       \<and> calls (snd (add_more_cases be summ existing followUp cnt config)) = []
       \<and> calls (snd (refine_test_case be config summ testCase followup)) = []
       \<and> (\<not> blank text \<and> \<not> missing (provider config) \<longrightarrow>
             fst (generate_cases be text given_summary config cnt)
             = Failure 400 (message (projl (createProvider config))) None)"
  proof
    assume "isl (createProvider config)"
    then obtain e where e: "createProvider config = Inl e" by (cases "createProvider config") auto
    have "\<not> blank text \<and> \<not> missing (provider config) \<longrightarrow>
             fst (generate_cases be text given_summary config cnt)
             = Failure 400 (message (projl (createProvider config))) None"
      by (simp add: generate_cases_def e)
    with generate_cases_no_call [OF e] add_more_cases_no_call [OF e] refine_test_case_no_call [OF e]
    show "calls (snd (generate_cases be text given_summary config cnt)) = []
       \<and> calls (snd (add_more_cases be summ existing followUp cnt config)) = []
       \<and> calls (snd (refine_test_case be config summ testCase followup)) = []
       \<and> (\<not> blank text \<and> \<not> missing (provider config) \<longrightarrow>
             fst (generate_cases be text given_summary config cnt)
             = Failure 400 (message (projl (createProvider config))) None)"
      by (intro conjI)
  qed
  show ?thesis by (rule conjI [OF createProvider_fails_iff b])
qed

theorem createProvider_required_fields_witness:
  "isl (createProvider \<lparr> provider = Some ''azure'', apiKey = Some ''k'', model = None,
                           endpoint = Some ''https://x.openai.azure.com'', deployment = None,
                           apiVersion = Some ''2024-02-15-preview'', baseUrl = None \<rparr>)
   \<and> missing None
   \<and> calls (snd (generate_cases (\<lambda>n p m. Inr \<lparr> content = ''[]'', tokenUsage = None \<rparr>) ''text'' None
        \<lparr> provider = Some ''azure'', apiKey = Some ''k'', model = None,
          endpoint = Some ''https://x.openai.azure.com'', deployment = None,
          apiVersion = Some ''2024-02-15-preview'', baseUrl = None \<rparr> None)) = []
   \<and> fst (generate_cases (\<lambda>n p m. Inr \<lparr> content = ''[]'', tokenUsage = None \<rparr>) ''text'' None
        \<lparr> provider = Some ''azure'', apiKey = Some ''k'', model = None,
          endpoint = Some ''https://x.openai.azure.com'', deployment = None,
          apiVersion = Some ''2024-02-15-preview'', baseUrl = None \<rparr> None)
       = Failure 400 ''Azure OpenAI requires apiKey, endpoint, deployment, and apiVersion'' None
   \<and> \<not> isl (createProvider \<lparr> provider = Some ''azure'', apiKey = Some ''k'', model = None,
                           endpoint = Some ''https://x.openai.azure.com'', deployment = Some ''d'',
                           apiVersion = Some ''2024-02-15-preview'', baseUrl = None \<rparr>)"
proof -
  let ?cfg = "\<lparr> provider = Some ''azure'', apiKey = Some ''k'', model = None,
                           endpoint = Some ''https://x.openai.azure.com'', deployment = None,
                           apiVersion = Some ''2024-02-15-preview'', baseUrl = None \<rparr>"
  let ?cfg2 = "\<lparr> provider = Some ''azure'', apiKey = Some ''k'', model = None,
                           endpoint = Some ''https://x.openai.azure.com'', deployment = Some ''d'',
                           apiVersion = Some ''2024-02-15-preview'', baseUrl = None \<rparr>"
  let ?be = "\<lambda>n p m. Inr \<lparr> content = ''[]'', tokenUsage = None \<rparr>"
  have m: "missing None" by (simp add: missing_def)
  have nb: "\<not> blank ''text''" by (simp add: blank_def trim_def is_space_def)
  have np: "\<not> missing (provider ?cfg)" by (simp add: missing_def)
  have e: "createProvider ?cfg
           = Inl (Error ''Azure OpenAI requires apiKey, endpoint, deployment, and apiVersion'')"
    by (simp add: createProvider_def missing_def)
  note t = createProvider_required_fields [of ?cfg ?be "''text''" None None "''s''" JNull "''f''"
             JNull "''f''"]
  from t m have a: "isl (createProvider ?cfg)" by simp
  with t have c: "calls (snd (generate_cases ?be ''text'' None ?cfg None)) = []" by blast
  from t a nb np have "fst (generate_cases ?be ''text'' None ?cfg None)
       = Failure 400 (message (projl (createProvider ?cfg))) None" by blast
  then have f: "fst (generate_cases ?be ''text'' None ?cfg None)
       = Failure 400 ''Azure OpenAI requires apiKey, endpoint, deployment, and apiVersion'' None"
    by (simp add: e)
  from createProvider_required_fields [of ?cfg2 ?be "''text''" None None "''s''" JNull "''f''"
             JNull "''f''"]
  have g: "\<not> isl (createProvider ?cfg2)" by (simp add: missing_def)
  show ?thesis by (intro conjI) (rule a m c f g)+
qed

text \<open>
  C1 fails on the code. The initial generation for the source text
  \<open>Users can log in with email and password\<close>, with a backend that returns a well-formed
  array of three records without testId, yields three records, but their identifiers are
  TC-002, TC-003, TC-004 and not TC-001, TC-002, TC-003 (the default titles shift in the
  same way): normalizeTestCases passes the position \<open>length + index + 1\<close> to
  normalizeTestCase, which adds one again.
\<close>

theorem generate_cases_initial_identifiers:
  "fst (generate_cases
          (\<lambda>n p m. Inr \<lparr> content =
             ''[{\"title\": \"Valid login\", \"steps\": [\"1. Open the login page\"], \"priority\": \"High\"}, {\"title\": \"Wrong password\", \"type\": \"Negative\"}, {\"description\": \"Empty email\"}]'',
             tokenUsage = None \<rparr>)
          ''Users can log in with email and password'' None
          \<lparr> provider = Some ''openai'', apiKey = Some ''sk-test'', model = None,
            endpoint = None, deployment = None, apiVersion = None, baseUrl = None \<rparr>
          None)
   = Success (Cases
       [\<lparr> testId = JStr ''TC-002'', title = JStr ''Valid login'', description = JStr [],
          preconditions = JStr [], steps = JArr [JStr ''1. Open the login page''],
          expectedResult = JStr [], priority = JStr ''High'', type = JStr ''Functional'' \<rparr>,
        \<lparr> testId = JStr ''TC-003'', title = JStr ''Wrong password'', description = JStr [],
          preconditions = JStr [], steps = JArr [], expectedResult = JStr [],
          priority = JStr ''Medium'', type = JStr ''Negative'' \<rparr>,
        \<lparr> testId = JStr ''TC-004'', title = JStr ''Test Case 4'',
          description = JStr ''Empty email'', preconditions = JStr [], steps = JArr [],
          expectedResult = JStr [], priority = JStr ''Medium'', type = JStr ''Functional'' \<rparr>]
       3 None None)"
proof -
  let ?json = "''[{\"title\": \"Valid login\", \"steps\": [\"1. Open the login page\"], \"priority\": \"High\"}, {\"title\": \"Wrong password\", \"type\": \"Negative\"}, {\"description\": \"Empty email\"}]''"
  let ?text = "''Users can log in with email and password''"
  let ?cfg = "\<lparr> provider = Some ''openai'', apiKey = Some ''sk-test'', model = None,
            endpoint = None, deployment = None, apiVersion = None, baseUrl = None \<rparr>"
  let ?be = "\<lambda>(n::nat) (p::Provider) (m::ChatPrompt).
               (Inr \<lparr> content = ?json, tokenUsage = None \<rparr> :: error + GenerateResult)"
  let ?objs = "[JObj [(''title'', JStr ''Valid login''),
                      (''steps'', JArr [JStr ''1. Open the login page'']),
                      (''priority'', JStr ''High'')],
                JObj [(''title'', JStr ''Wrong password''), (''type'', JStr ''Negative'')],
                JObj [(''description'', JStr ''Empty email'')]]"
  have nb: "\<not> blank ?text" by code_simp
  have np: "\<not> missing (provider ?cfg)" by (simp add: missing_def)
  have cp: "createProvider ?cfg = Inr (OpenAI ''sk-test'' ''gpt-4o-mini'')"
    by (simp add: createProvider_def openaiProvider_def default_to_def missing_def given_def)
  have be: "?be 0 (OpenAI ''sk-test'' ''gpt-4o-mini'') (generateTestCasePrompt ?text None)
            = Inr \<lparr> content = ?json, tokenUsage = None \<rparr>" by simp
  have parse: "parseTestCasesFromLLM ?json = Inr ?objs" by code_simp
  have norm: "normalizeTestCases ?objs [] = Inr
       [\<lparr> testId = JStr ''TC-002'', title = JStr ''Valid login'', description = JStr [],
          preconditions = JStr [], steps = JArr [JStr ''1. Open the login page''],
          expectedResult = JStr [], priority = JStr ''High'', type = JStr ''Functional'' \<rparr>,
        \<lparr> testId = JStr ''TC-003'', title = JStr ''Wrong password'', description = JStr [],
          preconditions = JStr [], steps = JArr [], expectedResult = JStr [],
          priority = JStr ''Medium'', type = JStr ''Negative'' \<rparr>,
        \<lparr> testId = JStr ''TC-004'', title = JStr ''Test Case 4'',
          description = JStr ''Empty email'', preconditions = JStr [], steps = JArr [],
          expectedResult = JStr [], priority = JStr ''Medium'', type = JStr ''Functional'' \<rparr>]"
    by code_simp
  show ?thesis
    unfolding generate_cases_run [of ?text ?cfg _ ?be None _ None, OF nb np cp be]
    by (simp add: parse_batch_def parse norm missing_def)
qed

text \<open>
  C10: in the refinement route, for every input record with a non-empty (truthy) testId,
  whenever the route returns a refined record: the record's testId is the testId of the
  parsed backend output when that one is non-empty, and the input record's testId when
  the parsed output has none or an empty one. The position-derived default of the
  normalizer is never used. The parsed output is the value of the last parse of the
  request.
\<close>

theorem refine_test_case_keeps_testId:
  assumes "truthy (get_prop testCase ''testId'')"
    and "fst (refine_test_case be config summ testCase followup) = Success (Refined r)"
  shows "\<exists>parsed.
           parseTestCaseFromLLM
             (last (parses (snd (refine_test_case be config summ testCase followup))))
           = Inr parsed
           \<and> testId r = (if truthy (get_prop parsed ''testId'') then get_prop parsed ''testId''
                          else get_prop testCase ''testId'')
           \<and> truthy (testId r)"
proof -
  from refine_test_case_success [OF assms(2)] obtain parsed where
    p: "parseTestCaseFromLLM
          (last (parses (snd (refine_test_case be config summ testCase followup)))) = Inr parsed"
    and n: "normalizeTestCase
              (spread_with parsed ''testId''
                 (or_else (get_prop parsed ''testId'') (get_prop testCase ''testId'')))
              0 None = Inr (r, None)"
    by blast
  let ?tid = "or_else (get_prop parsed ''testId'') (get_prop testCase ''testId'')"
  have t: "truthy ?tid" using assms(1) by (simp add: or_else_def)
  have g: "get_prop (spread_with parsed ''testId'' ?tid) ''testId'' = ?tid"
    by (rule get_prop_spread_with)
  from n have "testId r = or_else (get_prop (spread_with parsed ''testId'' ?tid) ''testId'')
                            (JStr (tc_label (0 + 1)))"
    by (auto simp: normalizeTestCase_def Let_def split: if_splits)
  with g t have "testId r = ?tid" by (simp add: or_else_def)
  with p t show ?thesis by (auto simp: or_else_def)
qed

theorem refine_test_case_keeps_testId_witness:
  "truthy (get_prop (JObj [(''testId'', JStr ''TC-009''), (''title'', JStr ''Login works'')])
             ''testId'')
   \<and> fst (refine_test_case
        (scripted [Inr \<lparr> content = ''Here is the refined test case: {\"title\": \"Login works for SSO users\", \"testId\": \"\"} Hope it helps.'',
                          tokenUsage = None \<rparr>])
        \<lparr> provider = Some ''ollama'', apiKey = None, model = None, endpoint = None,
          deployment = None, apiVersion = None, baseUrl = None \<rparr>
        ''Users can log in with email and password''
        (JObj [(''testId'', JStr ''TC-009''), (''title'', JStr ''Login works'')])
        ''Cover SSO users'')
     = Success (Refined
         \<lparr> testId = JStr ''TC-009'', title = JStr ''Login works for SSO users'',
           description = JStr [], preconditions = JStr [], steps = JArr [],
           expectedResult = JStr [], priority = JStr ''Medium'', type = JStr ''Functional'' \<rparr>)
   \<and> parseTestCaseFromLLM (last (parses (snd (refine_test_case
        (scripted [Inr \<lparr> content = ''Here is the refined test case: {\"title\": \"Login works for SSO users\", \"testId\": \"\"} Hope it helps.'',
                          tokenUsage = None \<rparr>])
        \<lparr> provider = Some ''ollama'', apiKey = None, model = None, endpoint = None,
          deployment = None, apiVersion = None, baseUrl = None \<rparr>
        ''Users can log in with email and password''
        (JObj [(''testId'', JStr ''TC-009''), (''title'', JStr ''Login works'')])
        ''Cover SSO users''))))
     = Inr (JObj [(''title'', JStr ''Login works for SSO users''), (''testId'', JStr [])])"
proof -
  let ?raw = "''Here is the refined test case: {\"title\": \"Login works for SSO users\", \"testId\": \"\"} Hope it helps.''"
  let ?obj = "''{\"title\": \"Login works for SSO users\", \"testId\": \"\"}''"
  let ?res = "\<lparr> content = ?raw, tokenUsage = None \<rparr>"
  let ?be = "scripted [Inr ?res]"
  let ?cfg = "\<lparr> provider = Some ''ollama'', apiKey = None, model = None, endpoint = None,
          deployment = None, apiVersion = None, baseUrl = None \<rparr>"
  let ?summ = "''Users can log in with email and password''"
  let ?tc = "JObj [(''testId'', JStr ''TC-009''), (''title'', JStr ''Login works'')]"
  let ?fu = "''Cover SSO users''"
  let ?parsed = "JObj [(''title'', JStr ''Login works for SSO users''), (''testId'', JStr [])]"
  let ?r = "\<lparr> testId = JStr ''TC-009'', title = JStr ''Login works for SSO users'',
           description = JStr [], preconditions = JStr [], steps = JArr [],
           expectedResult = JStr [], priority = JStr ''Medium'', type = JStr ''Functional'' \<rparr>"
  let ?p = "Ollama ''http://localhost:11434'' ''llama3''"
  have t: "truthy (get_prop ?tc ''testId'')" by simp
  have b1: "\<not> blank ?summ" by code_simp
  have b2: "\<not> blank ?fu" by code_simp
  have tt: "truthy ?tc" by simp
  obtain p where cp: "createProvider ?cfg = Inr p"
    by (simp add: createProvider_def ollamaProvider_def default_to_def missing_def given_def)
  have be: "?be 0 p (refineTestCasePrompt ?summ ?tc ?fu) = Inr ?res"
    by (simp add: scripted_def)
  have ex: "extract_object (trim ?raw) = ?obj" by code_simp
  have parse: "parseTestCaseFromLLM ?obj = Inr ?parsed" by code_simp
  have loop: "refine_loop ?be p refine_system 0 (trim ?raw) ?raw tr
              = (Parsed ?parsed, ?raw, parsing tr ?obj)" for tr
    by (simp add: refine_loop_first ex parse)
  have norm: "normalizeTestCase
                (spread_with ?parsed ''testId''
                   (or_else (get_prop ?parsed ''testId'') (get_prop ?tc ''testId''))) 0 None
              = Inr (?r, None)"
    by code_simp
  have run: "refine_test_case ?be ?cfg ?summ ?tc ?fu
             = (Success (Refined ?r),
                \<lparr> calls = [(p, refineTestCasePrompt ?summ ?tc ?fu)], parses = [?obj] \<rparr>)"
    unfolding refine_test_case_run [of ?summ ?tc ?fu ?cfg p ?be ?res, OF b1 tt b2 cp be]
    apply (simp only: GenerateResult.select_convs loop prod.case loop_exit.case norm sum.case)
    by (simp add: parsing_def)
  from run have f: "fst (refine_test_case ?be ?cfg ?summ ?tc ?fu) = Success (Refined ?r)"
    by simp
  from refine_test_case_keeps_testId [OF t f] run parse
  have "parseTestCaseFromLLM (last (parses (snd (refine_test_case ?be ?cfg ?summ ?tc ?fu))))
        = Inr ?parsed"
    by simp
  with t f show ?thesis by blast
qed

text \<open>
  C7: cleaning trims the text, removes the markers of a fenced block (the opening fence
  with an optional \<^verbatim>\<open>json\<close> tag in any letter case, and the closing fence) when the
  trimmed text starts with a fence, and rewrites the missing-comma defect in what is
  left; the parse functions parse the cleaned text and call no backend.

  \<^item> For every text the cleaner returns the rewrite of the trimmed text without its
    fence markers.
  \<^item> For every body \<open>B\<close> that begins and ends with a character other than white space,
    wrapped in fence markers with any white space around them, the cleaner returns the
    rewrite of \<open>B\<close> (when no tag follows the opening fence, \<open>B\<close> must not begin with the
    letter j, or the expression would read a tag); whenever the rewrite of \<open>B\<close> is JSON
    for an array, the fenced text parses to that array at the first parse. When \<open>B\<close>
    holds the defect, the cleaned text holds the comma. The same holds for a body
    without fences.
  \<^item> A text \<^verbatim>\<open>"preconditions":\<close>, a quoted value without quotes inside and
    \<^verbatim>\<open>"steps"\<close>, separated by white space only, is rewritten with a comma between the
    value and \<^verbatim>\<open>"steps"\<close> wherever no earlier match of the pattern begins; in
    particular \<^verbatim>\<open>"preconditions": "X" "steps"\<close> is cleaned to
    \<^verbatim>\<open>"preconditions": "X", "steps"\<close>.
  \<^item> Wrapping a body in fence markers does not change the result of the parse, whatever
    the body is and whatever the parse makes of it.
  \<^item> Any text that \<^const>\<open>JSON_parse\<close> accepts as an array contains no defect; wrapped in
    fence markers it is cleaned to the trimmed JSON text and parsed to that array at the
    first parse.

  Texts are sequences of code units below 256, so \<^const>\<open>JSON_parse\<close> accepts a
  four-digit hexadecimal escape only up to 00FF; the first four items do not depend on
  what \<^const>\<open>JSON_parse\<close> accepts.
\<close>

theorem cleanLLMJsonResponse_fences_and_comma:
  "cleanLLMJsonResponse text
     = fix_missing_comma (if startsWith (trim text) fence
                          then strip_trailing_fence (strip_leading_fence (trim text))
                          else trim text)
   \<and> ((\<forall>c \<in> set (w0 @ w1 @ w2 @ w3). is_space c)
        \<and> B \<noteq> [] \<and> \<not> is_space (hd B) \<and> \<not> is_space (last B)
        \<and> (tag = [] \<and> hd B \<noteq> CHR ''j'' \<and> hd B \<noteq> CHR ''J'' \<or> json_tag tag) \<longrightarrow>
          cleanLLMJsonResponse (w0 @ fence @ tag @ w1 @ B @ w2 @ fence @ w3) = fix_missing_comma B
          \<and> (JSON_parse (fix_missing_comma B) = Some (JArr ys) \<longrightarrow>
                parseTestCasesFromLLM (w0 @ fence @ tag @ w1 @ B @ w2 @ fence @ w3) = Inr ys)
          \<and> (\<not> startsWith B fence \<longrightarrow>
                parseTestCasesFromLLM (w0 @ fence @ tag @ w1 @ B @ w2 @ fence @ w3)
                = parseTestCasesFromLLM B)
          \<and> (B = pre @ ''\"preconditions\":'' @ u1 @ [CHR 0x22] @ x @ [CHR 0x22] @ u2
                     @ ''\"steps\"'' @ r
              \<and> (\<forall>c \<in> set (u1 @ u2). is_space c) \<and> (\<forall>c \<in> set x. c \<noteq> CHR 0x22)
              \<and> (\<forall>i < length pre. match_defect (drop i B) = None) \<longrightarrow>
                cleanLLMJsonResponse (w0 @ fence @ tag @ w1 @ B @ w2 @ fence @ w3)
                = pre @ ''\"preconditions\": \"'' @ x @ ''\", \"steps\"'' @ fix_missing_comma r))
   \<and> ((\<forall>c \<in> set (w0 @ w3). is_space c)
        \<and> B \<noteq> [] \<and> \<not> is_space (hd B) \<and> \<not> is_space (last B) \<and> \<not> startsWith B fence \<longrightarrow>
          cleanLLMJsonResponse (w0 @ B @ w3) = fix_missing_comma B
          \<and> (JSON_parse (fix_missing_comma B) = Some (JArr ys) \<longrightarrow>
                parseTestCasesFromLLM (w0 @ B @ w3) = Inr ys))
   \<and> ((\<forall>c \<in> set (u1 @ u2). is_space c) \<and> (\<forall>c \<in> set x. c \<noteq> CHR 0x22)
      \<and> (\<forall>i < length pre. match_defect
            (drop i (pre @ ''\"preconditions\":'' @ u1 @ [CHR 0x22] @ x @ [CHR 0x22] @ u2
                       @ ''\"steps\"'' @ r)) = None) \<longrightarrow>
        fix_missing_comma (pre @ ''\"preconditions\":'' @ u1 @ [CHR 0x22] @ x @ [CHR 0x22] @ u2
                             @ ''\"steps\"'' @ r)
        = pre @ ''\"preconditions\": \"'' @ x @ ''\", \"steps\"'' @ fix_missing_comma r)
   \<and> (JSON_parse J = Some (JArr xs) \<and> (tag = [] \<or> json_tag tag)
      \<and> (\<forall>c \<in> set (w0 @ w1 @ w2 @ w3). is_space c) \<longrightarrow>
        fix_missing_comma J = J
        \<and> cleanLLMJsonResponse (w0 @ fence @ tag @ w1 @ J @ w2 @ fence @ w3) = trim J
        \<and> parseTestCasesFromLLM (w0 @ fence @ tag @ w1 @ J @ w2 @ fence @ w3) = Inr xs)
   \<and> cleanLLMJsonResponse ''\"preconditions\": \"X\" \"steps\"''
       = ''\"preconditions\": \"X\", \"steps\"''"
proof -
  let ?fenced = "w0 @ fence @ tag @ w1 @ B @ w2 @ fence @ w3"
  have a: "cleanLLMJsonResponse text
     = fix_missing_comma (if startsWith (trim text) fence
                          then strip_trailing_fence (strip_leading_fence (trim text))
                          else trim text)"
    by (simp add: cleanLLMJsonResponse_def Let_def)
  have idem: "parseTestCasesFromLLM t = Inr ys"
    if "cleanLLMJsonResponse t = c" and "JSON_parse c = Some (JArr ys)" for t c
    using that by (simp add: parseTestCasesFromLLM_def)
  have b: "(\<forall>c \<in> set (w0 @ w1 @ w2 @ w3). is_space c)
        \<and> B \<noteq> [] \<and> \<not> is_space (hd B) \<and> \<not> is_space (last B)
        \<and> (tag = [] \<and> hd B \<noteq> CHR ''j'' \<and> hd B \<noteq> CHR ''J'' \<or> json_tag tag) \<longrightarrow>
          cleanLLMJsonResponse ?fenced = fix_missing_comma B
          \<and> (JSON_parse (fix_missing_comma B) = Some (JArr ys) \<longrightarrow>
                parseTestCasesFromLLM ?fenced = Inr ys)
          \<and> (\<not> startsWith B fence \<longrightarrow> parseTestCasesFromLLM ?fenced = parseTestCasesFromLLM B)
          \<and> (B = pre @ ''\"preconditions\":'' @ u1 @ [CHR 0x22] @ x @ [CHR 0x22] @ u2
                     @ ''\"steps\"'' @ r
              \<and> (\<forall>c \<in> set (u1 @ u2). is_space c) \<and> (\<forall>c \<in> set x. c \<noteq> CHR 0x22)
              \<and> (\<forall>i < length pre. match_defect (drop i B) = None) \<longrightarrow>
                cleanLLMJsonResponse ?fenced
                = pre @ ''\"preconditions\": \"'' @ x @ ''\", \"steps\"'' @ fix_missing_comma r)"
  proof
    assume h: "(\<forall>c \<in> set (w0 @ w1 @ w2 @ w3). is_space c)
        \<and> B \<noteq> [] \<and> \<not> is_space (hd B) \<and> \<not> is_space (last B)
        \<and> (tag = [] \<and> hd B \<noteq> CHR ''j'' \<and> hd B \<noteq> CHR ''J'' \<or> json_tag tag)"
    then have w: "\<forall>c \<in> set w0. is_space c" "\<forall>c \<in> set w1. is_space c"
        "\<forall>c \<in> set w2. is_space c" "\<forall>c \<in> set w3. is_space c"
      and ne: "B \<noteq> []" and hl: "\<not> is_space (hd B)" "\<not> is_space (last B)"
      and t: "tag = [] \<and> hd B \<noteq> CHR ''j'' \<and> hd B \<noteq> CHR ''J'' \<or> json_tag tag"
      by simp_all
    have c1: "cleanLLMJsonResponse ?fenced = fix_missing_comma B"
      using ne hl t w by (rule clean_fenced_body)
    have c2: "JSON_parse (fix_missing_comma B) = Some (JArr ys) \<longrightarrow>
                parseTestCasesFromLLM ?fenced = Inr ys"
      using idem [OF c1] by blast
    have c2': "\<not> startsWith B fence \<longrightarrow> parseTestCasesFromLLM ?fenced = parseTestCasesFromLLM B"
    proof
      assume f: "\<not> startsWith B fence"
      have "cleanLLMJsonResponse ([] @ B @ []) = fix_missing_comma B"
        using ne hl f by (rule clean_plain_body) simp_all
      then have "cleanLLMJsonResponse B = cleanLLMJsonResponse ?fenced" using c1 by simp
      then show "parseTestCasesFromLLM ?fenced = parseTestCasesFromLLM B"
        by (simp only: parseTestCasesFromLLM_def)
    qed
    have c3: "B = pre @ ''\"preconditions\":'' @ u1 @ [CHR 0x22] @ x @ [CHR 0x22] @ u2
                     @ ''\"steps\"'' @ r
              \<and> (\<forall>c \<in> set (u1 @ u2). is_space c) \<and> (\<forall>c \<in> set x. c \<noteq> CHR 0x22)
              \<and> (\<forall>i < length pre. match_defect (drop i B) = None) \<longrightarrow>
                cleanLLMJsonResponse ?fenced
                = pre @ ''\"preconditions\": \"'' @ x @ ''\", \"steps\"'' @ fix_missing_comma r"
    proof
      assume d: "B = pre @ ''\"preconditions\":'' @ u1 @ [CHR 0x22] @ x @ [CHR 0x22] @ u2
                     @ ''\"steps\"'' @ r
              \<and> (\<forall>c \<in> set (u1 @ u2). is_space c) \<and> (\<forall>c \<in> set x. c \<noteq> CHR 0x22)
              \<and> (\<forall>i < length pre. match_defect (drop i B) = None)"
      then have B: "B = pre @ ''\"preconditions\":'' @ u1 @ [CHR 0x22] @ x @ [CHR 0x22] @ u2
                     @ ''\"steps\"'' @ r"
        by (rule conjunct1)
      note u12 = d [THEN conjunct2, THEN conjunct1]
      note x = d [THEN conjunct2, THEN conjunct2, THEN conjunct1]
      note p = d [THEN conjunct2, THEN conjunct2, THEN conjunct2]
      from u12 have u: "\<forall>c \<in> set u1. is_space c" "\<forall>c \<in> set u2. is_space c"
        by simp_all
      from p have p': "\<forall>i < length pre. match_defect
            (drop i (pre @ ''\"preconditions\":'' @ u1 @ [CHR 0x22] @ x @ [CHR 0x22] @ u2
                       @ ''\"steps\"'' @ r)) = None"
        unfolding B [symmetric] .
      have "fix_missing_comma B
            = pre @ ''\"preconditions\": \"'' @ x @ ''\", \"steps\"'' @ fix_missing_comma r"
        unfolding B using u x p' by (rule fix_missing_comma_rewrite)
      with c1 show "cleanLLMJsonResponse ?fenced
                = pre @ ''\"preconditions\": \"'' @ x @ ''\", \"steps\"'' @ fix_missing_comma r"
        by (rule trans)
    qed
    from c1 c2 c2' c3 show "cleanLLMJsonResponse ?fenced = fix_missing_comma B
          \<and> (JSON_parse (fix_missing_comma B) = Some (JArr ys) \<longrightarrow>
                parseTestCasesFromLLM ?fenced = Inr ys)
          \<and> (\<not> startsWith B fence \<longrightarrow> parseTestCasesFromLLM ?fenced = parseTestCasesFromLLM B)
          \<and> (B = pre @ ''\"preconditions\":'' @ u1 @ [CHR 0x22] @ x @ [CHR 0x22] @ u2
                     @ ''\"steps\"'' @ r
              \<and> (\<forall>c \<in> set (u1 @ u2). is_space c) \<and> (\<forall>c \<in> set x. c \<noteq> CHR 0x22)
              \<and> (\<forall>i < length pre. match_defect (drop i B) = None) \<longrightarrow>
                cleanLLMJsonResponse ?fenced
                = pre @ ''\"preconditions\": \"'' @ x @ ''\", \"steps\"'' @ fix_missing_comma r)"
      by (intro conjI)
  qed
  have c: "(\<forall>c \<in> set (w0 @ w3). is_space c)
        \<and> B \<noteq> [] \<and> \<not> is_space (hd B) \<and> \<not> is_space (last B) \<and> \<not> startsWith B fence \<longrightarrow>
          cleanLLMJsonResponse (w0 @ B @ w3) = fix_missing_comma B
          \<and> (JSON_parse (fix_missing_comma B) = Some (JArr ys) \<longrightarrow>
                parseTestCasesFromLLM (w0 @ B @ w3) = Inr ys)"
  proof
    assume h: "(\<forall>c \<in> set (w0 @ w3). is_space c)
        \<and> B \<noteq> [] \<and> \<not> is_space (hd B) \<and> \<not> is_space (last B) \<and> \<not> startsWith B fence"
    then have w: "\<forall>c \<in> set w0. is_space c" "\<forall>c \<in> set w3. is_space c"
      and ne: "B \<noteq> []" and hl: "\<not> is_space (hd B)" "\<not> is_space (last B)"
      and f: "\<not> startsWith B fence"
      by simp_all
    have c1: "cleanLLMJsonResponse (w0 @ B @ w3) = fix_missing_comma B"
      using ne hl f w by (rule clean_plain_body)
    have c2: "JSON_parse (fix_missing_comma B) = Some (JArr ys) \<longrightarrow>
                parseTestCasesFromLLM (w0 @ B @ w3) = Inr ys"
      using idem [OF c1] by blast
    from c1 c2 show "cleanLLMJsonResponse (w0 @ B @ w3) = fix_missing_comma B
          \<and> (JSON_parse (fix_missing_comma B) = Some (JArr ys) \<longrightarrow>
                parseTestCasesFromLLM (w0 @ B @ w3) = Inr ys)"
      by (rule conjI)
  qed
  have d: "(\<forall>c \<in> set (u1 @ u2). is_space c) \<and> (\<forall>c \<in> set x. c \<noteq> CHR 0x22)
      \<and> (\<forall>i < length pre. match_defect
            (drop i (pre @ ''\"preconditions\":'' @ u1 @ [CHR 0x22] @ x @ [CHR 0x22] @ u2
                       @ ''\"steps\"'' @ r)) = None) \<longrightarrow>
        fix_missing_comma (pre @ ''\"preconditions\":'' @ u1 @ [CHR 0x22] @ x @ [CHR 0x22] @ u2
                             @ ''\"steps\"'' @ r)
        = pre @ ''\"preconditions\": \"'' @ x @ ''\", \"steps\"'' @ fix_missing_comma r"
  proof
    assume h: "(\<forall>c \<in> set (u1 @ u2). is_space c) \<and> (\<forall>c \<in> set x. c \<noteq> CHR 0x22)
      \<and> (\<forall>i < length pre. match_defect
            (drop i (pre @ ''\"preconditions\":'' @ u1 @ [CHR 0x22] @ x @ [CHR 0x22] @ u2
                       @ ''\"steps\"'' @ r)) = None)"
    then have u: "\<forall>c \<in> set u1. is_space c" "\<forall>c \<in> set u2. is_space c"
      and x: "\<forall>c \<in> set x. c \<noteq> CHR 0x22"
      and p: "\<forall>i < length pre. match_defect
            (drop i (pre @ ''\"preconditions\":'' @ u1 @ [CHR 0x22] @ x @ [CHR 0x22] @ u2
                       @ ''\"steps\"'' @ r)) = None"
      by simp_all
    from u x p show "fix_missing_comma (pre @ ''\"preconditions\":'' @ u1 @ [CHR 0x22] @ x
                        @ [CHR 0x22] @ u2 @ ''\"steps\"'' @ r)
        = pre @ ''\"preconditions\": \"'' @ x @ ''\", \"steps\"'' @ fix_missing_comma r"
      by (rule fix_missing_comma_rewrite)
  qed
  have e: "JSON_parse J = Some (JArr xs) \<and> (tag = [] \<or> json_tag tag)
      \<and> (\<forall>c \<in> set (w0 @ w1 @ w2 @ w3). is_space c) \<longrightarrow>
        fix_missing_comma J = J
        \<and> cleanLLMJsonResponse (w0 @ fence @ tag @ w1 @ J @ w2 @ fence @ w3) = trim J
        \<and> parseTestCasesFromLLM (w0 @ fence @ tag @ w1 @ J @ w2 @ fence @ w3) = Inr xs"
  proof
    assume h: "JSON_parse J = Some (JArr xs) \<and> (tag = [] \<or> json_tag tag)
      \<and> (\<forall>c \<in> set (w0 @ w1 @ w2 @ w3). is_space c)"
    then have p: "JSON_parse J = Some (JArr xs)" and t: "tag = [] \<or> json_tag tag"
      and w: "\<forall>c \<in> set w0. is_space c" "\<forall>c \<in> set w1. is_space c"
        "\<forall>c \<in> set w2. is_space c" "\<forall>c \<in> set w3. is_space c"
      by simp_all
    show "fix_missing_comma J = J
      \<and> cleanLLMJsonResponse (w0 @ fence @ tag @ w1 @ J @ w2 @ fence @ w3) = trim J
      \<and> parseTestCasesFromLLM (w0 @ fence @ tag @ w1 @ J @ w2 @ fence @ w3) = Inr xs"
      using JSON_parse_no_defect [OF p] clean_fenced [OF p t w] parse_fenced [OF p t w]
      by (intro conjI)
  qed
  have f: "cleanLLMJsonResponse ''\"preconditions\": \"X\" \"steps\"''
       = ''\"preconditions\": \"X\", \"steps\"''"
    by code_simp
  show ?thesis by (intro conjI) (rule a b c d e f)+
qed

theorem cleanLLMJsonResponse_fences_and_comma_witness:
  "is_space (CHR 0x0A) \<and> is_space (CHR 0x20) \<and> json_tag ''JSON''
   \<and> JSON_parse ''[{\"title\": \"Login\"}]'' = Some (JArr [JObj [(''title'', JStr ''Login'')]])
   \<and> parseTestCasesFromLLM ('' ```JSON\<newline>[{\"title\": \"Login\"}]\<newline>``` '')
       = Inr [JObj [(''title'', JStr ''Login'')]]
   \<and> match_defect ''[{\"preconditions\": \"X\" \"steps\": []}]'' = None
   \<and> match_defect ''{\"preconditions\": \"X\" \"steps\": []}]'' = None
   \<and> JSON_parse ''[{\"preconditions\": \"X\" \"steps\": []}]'' = None
   \<and> fix_missing_comma ''[{\"preconditions\": \"X\" \"steps\": []}]''
       = ''[{\"preconditions\": \"X\", \"steps\": []}]''
   \<and> cleanLLMJsonResponse ('' ```JSON\<newline>[{\"preconditions\": \"X\" \"steps\": []}]\<newline>``` '')
       = ''[{\"preconditions\": \"X\", \"steps\": []}]''
   \<and> parseTestCasesFromLLM ('' ```JSON\<newline>[{\"preconditions\": \"X\" \"steps\": []}]\<newline>``` '')
       = Inr [JObj [(''preconditions'', JStr ''X''), (''steps'', JArr [])]]
   \<and> parseTestCasesFromLLM ('' [{\"preconditions\": \"X\" \"steps\": []}] '')
       = Inr [JObj [(''preconditions'', JStr ''X''), (''steps'', JArr [])]]"
proof -
  let ?J = "''[{\"title\": \"Login\"}]''"
  let ?xs = "[JObj [(''title'', JStr ''Login'')]]"
  let ?B = "''[{\"preconditions\": \"X\" \"steps\": []}]''"
  let ?F = "''[{\"preconditions\": \"X\", \"steps\": []}]''"
  let ?ys = "[JObj [(''preconditions'', JStr ''X''), (''steps'', JArr [])]]"
  have s1: "is_space (CHR 0x0A)" and s2: "is_space (CHR 0x20)" by (simp_all add: is_space_def)
  have t: "json_tag ''JSON''" by (simp add: json_tag_def)
  have p: "JSON_parse ?J = Some (JArr ?xs)" by code_simp
  have m0: "match_defect ?B = None" by code_simp
  have m1: "match_defect ''{\"preconditions\": \"X\" \"steps\": []}]'' = None" by code_simp
  have np: "JSON_parse ?B = None" by code_simp
  have pf: "JSON_parse ?F = Some (JArr ?ys)" by code_simp
  have f0: "fix_missing_comma '': []}]'' = '': []}]''" by code_simp
  have sp: "\<forall>c \<in> set ('' '' @ ''\<newline>'' @ ''\<newline>'' @ '' ''). is_space c"
    using s1 s2 by simp
  have sp2: "\<forall>c \<in> set ('' '' @ '' ''). is_space c" using s2 by simp
  have nq: "\<forall>c \<in> set ''X''. c \<noteq> CHR 0x22" by simp
  have body: "?B \<noteq> [] \<and> \<not> is_space (hd ?B) \<and> \<not> is_space (last ?B) \<and> \<not> startsWith ?B fence"
    by (simp add: is_space_def startsWith_def fence_def)
  have split: "?B = ''[{'' @ ''\"preconditions\":'' @ '' '' @ [CHR 0x22] @ ''X'' @ [CHR 0x22]
                   @ '' '' @ ''\"steps\"'' @ '': []}]''"
    by simp
  have pre: "\<forall>i < length ''[{''. match_defect (drop i ?B) = None"
  proof (intro allI impI)
    fix i :: nat assume "i < length ''[{''"
    then have "i = 0 \<or> i = 1" by auto
    then show "match_defect (drop i ?B) = None" using m0 m1 by (elim disjE) simp_all
  qed
  have pre': "\<forall>i < length ''[{''. match_defect
      (drop i (''[{'' @ ''\"preconditions\":'' @ '' '' @ [CHR 0x22] @ ''X'' @ [CHR 0x22]
                 @ '' '' @ ''\"steps\"'' @ '': []}]'')) = None"
    using pre by simp
  note th = cleanLLMJsonResponse_fences_and_comma
    [of "[]" "'' ''" "''\<newline>''" "''\<newline>''" "'' ''" ?B "''JSON''" ?ys "''[{''" "'' ''" "''X''"
        "'' ''" "'': []}]''" ?J ?xs]
  note fenced = th [THEN conjunct2, THEN conjunct1]
  note plain = th [THEN conjunct2, THEN conjunct2, THEN conjunct1]
  note rewrite = th [THEN conjunct2, THEN conjunct2, THEN conjunct2, THEN conjunct1]
  note valid = th [THEN conjunct2, THEN conjunct2, THEN conjunct2, THEN conjunct2, THEN conjunct1]
  from rewrite sp2 nq pre'
  have fx: "fix_missing_comma ?B = ?F" by (simp add: f0)
  from fenced sp body t
  have c1: "cleanLLMJsonResponse ('' '' @ fence @ ''JSON'' @ ''\<newline>'' @ ?B @ ''\<newline>'' @ fence @ '' '')
            = fix_missing_comma ?B"
    and c2: "JSON_parse (fix_missing_comma ?B) = Some (JArr ?ys) \<longrightarrow>
             parseTestCasesFromLLM ('' '' @ fence @ ''JSON'' @ ''\<newline>'' @ ?B @ ''\<newline>'' @ fence @ '' '')
             = Inr ?ys"
    by blast+
  from c1 fx have a1: "cleanLLMJsonResponse ('' ```JSON\<newline>[{\"preconditions\": \"X\" \"steps\": []}]\<newline>``` '')
       = ?F"
    by (simp add: fence_def)
  from c2 fx pf have a2: "parseTestCasesFromLLM
         ('' ```JSON\<newline>[{\"preconditions\": \"X\" \"steps\": []}]\<newline>``` '') = Inr ?ys"
    by (simp add: fence_def)
  from plain sp2 body
  have "JSON_parse (fix_missing_comma ?B) = Some (JArr ?ys) \<longrightarrow>
        parseTestCasesFromLLM ('' '' @ ?B @ '' '') = Inr ?ys"
    by blast
  with fx pf have a3: "parseTestCasesFromLLM ('' [{\"preconditions\": \"X\" \"steps\": []}] '')
                       = Inr ?ys"
    by simp
  from valid p t sp
  have "parseTestCasesFromLLM ('' '' @ fence @ ''JSON'' @ ''\<newline>'' @ ?J @ ''\<newline>'' @ fence @ '' '')
        = Inr ?xs" by blast
  then have a4: "parseTestCasesFromLLM ('' ```JSON\<newline>[{\"title\": \"Login\"}]\<newline>``` '') = Inr ?xs"
    by (simp add: fence_def)
  show ?thesis by (intro conjI) (rule s1 s2 t p a4 m0 m1 np fx a1 a2 a3)+
qed

text \<open>
  C2, as stated, fails for the batch operations: the initial generation, with a backend
  whose first reply is not JSON and whose next reply would be a valid array, fails after
  one parse attempt and one backend call; no Repair prompt is issued.
\<close>

theorem generate_cases_fails_without_repair:
  "generate_cases
     (scripted [Inr \<lparr> content = ''I cannot produce test cases for this text.'', tokenUsage = None \<rparr>,
                Inr \<lparr> content = ''[]'', tokenUsage = None \<rparr>])
     ''Users can log in with email and password'' None
     \<lparr> provider = Some ''openai'', apiKey = Some ''sk-test'', model = None,
       endpoint = None, deployment = None, apiVersion = None, baseUrl = None \<rparr>
     None
   = (Failure 500 (''Failed to parse LLM response: '' @ JSON_parse_message)
        (Some ''I cannot produce test cases for this text.''),
      \<lparr> calls = [(OpenAI ''sk-test'' ''gpt-4o-mini'',
                  generateTestCasePrompt ''Users can log in with email and password'' None)],
        parses = [''I cannot produce test cases for this text.''] \<rparr>)"
proof -
  let ?bad = "''I cannot produce test cases for this text.''"
  let ?text = "''Users can log in with email and password''"
  let ?cfg = "\<lparr> provider = Some ''openai'', apiKey = Some ''sk-test'', model = None,
       endpoint = None, deployment = None, apiVersion = None, baseUrl = None \<rparr>"
  let ?be = "scripted [Inr \<lparr> content = ?bad, tokenUsage = None \<rparr>,
                       Inr \<lparr> content = ''[]'', tokenUsage = None \<rparr>]"
  have nb: "\<not> blank ?text" by code_simp
  have np: "\<not> missing (provider ?cfg)" by (simp add: missing_def)
  have cp: "createProvider ?cfg = Inr (OpenAI ''sk-test'' ''gpt-4o-mini'')"
    by (simp add: createProvider_def openaiProvider_def default_to_def missing_def given_def)
  have be: "?be 0 (OpenAI ''sk-test'' ''gpt-4o-mini'') (generateTestCasePrompt ?text None)
            = Inr \<lparr> content = ?bad, tokenUsage = None \<rparr>"
    by (simp add: scripted_def)
  have parse: "parseTestCasesFromLLM ?bad = Inl (SyntaxError JSON_parse_message)" by code_simp
  show ?thesis
    unfolding generate_cases_run [of ?text ?cfg _ ?be None _ None, OF nb np cp be]
    by (simp add: parse_batch_def parse parsing_def)
qed

text \<open>
  C2, amended. In the refinement operation a first parse failure causes exactly one
  Repair prompt, built from the text that failed to parse, the message of the parse
  error and the system prompt of the request, to be issued through the same adapter
  instance; and when the backend returns unparseable output on the initial and on the
  corrective call, the operation fails with status 500 after exactly 2 parse attempts
  and 2 backend calls. The batch operations (initial and incremental generation) issue
  no Repair prompt: a parse failure makes them fail with status 500 after exactly one
  parse attempt, with no backend call after the generation call.
\<close>

theorem parse_failure_handling:
  assumes cp: "createProvider config = Inr p"
  shows
   "(\<not> blank prd \<and> be 0 p (generateTestCasePrompt prd cnt) = Inr res
       \<and> parseTestCasesFromLLM (content res) = Inl e \<longrightarrow>
       generate_cases be prd given_summary config cnt
       = (Failure 500 (''Failed to parse LLM response: '' @ message e) (Some (content res)),
          \<lparr> calls = [(p, generateTestCasePrompt prd cnt)], parses = [content res] \<rparr>))
    \<and> (\<not> blank summ \<and> \<not> blank followup
       \<and> context_for_prompt be no_trace (tc # tcs) p = (ctx, ctr)
       \<and> be (length (calls ctr)) p
            (generateAddMoreTestCasesPrompt summ ctx followup
               (case cnt of None \<Rightarrow> 5 | Some n \<Rightarrow> if n = 0 then 5 else n)) = Inr res
       \<and> parseTestCasesFromLLM (content res) = Inl e \<longrightarrow>
       add_more_cases be summ (JArr (tc # tcs)) followup cnt config
       = (Failure 500 (''Failed to parse LLM response: '' @ message e) (Some (content res)),
          \<lparr> calls = calls ctr @
                 [(p, generateAddMoreTestCasesPrompt summ ctx followup
                        (case cnt of None \<Rightarrow> 5 | Some n \<Rightarrow> if n = 0 then 5 else n))],
            parses = [content res] \<rparr>))
    \<and> (\<not> blank summ \<and> truthy testCase \<and> \<not> blank followup
       \<and> be 0 p (refineTestCasePrompt summ testCase followup) = Inr ini
       \<and> parseTestCaseFromLLM (extract_object (trim (content ini))) = Inl perr \<longrightarrow>
       calls (snd (refine_test_case be config summ testCase followup))
       = [(p, refineTestCasePrompt summ testCase followup),
          (p, generateJsonCorrectionPrompt (extract_object (trim (content ini))) (message perr)
                (system (refineTestCasePrompt summ testCase followup)))]
       \<and> (be 1 p (generateJsonCorrectionPrompt (extract_object (trim (content ini))) (message perr)
                    (system (refineTestCasePrompt summ testCase followup))) = Inr cor
            \<and> isl (parseTestCaseFromLLM (extract_object (trim (content cor)))) \<longrightarrow>
            (\<exists>msg. fst (refine_test_case be config summ testCase followup)
                    = Failure 500 msg (Some (content cor)))
            \<and> length (parses (snd (refine_test_case be config summ testCase followup))) = 2))"
proof -
  have np: "\<not> missing (provider config)" using cp by (rule createProvider_provider)
  have sys: "system (refineTestCasePrompt summ testCase followup) = refine_system"
    by (simp add: refineTestCasePrompt_def)
  have a: "\<not> blank prd \<and> be 0 p (generateTestCasePrompt prd cnt) = Inr res
       \<and> parseTestCasesFromLLM (content res) = Inl e \<longrightarrow>
       generate_cases be prd given_summary config cnt
       = (Failure 500 (''Failed to parse LLM response: '' @ message e) (Some (content res)),
          \<lparr> calls = [(p, generateTestCasePrompt prd cnt)], parses = [content res] \<rparr>)"
  proof
    assume h: "\<not> blank prd \<and> be 0 p (generateTestCasePrompt prd cnt) = Inr res
       \<and> parseTestCasesFromLLM (content res) = Inl e"
    note nb = h [THEN conjunct1]
    note be = h [THEN conjunct2, THEN conjunct1]
    note pf = h [THEN conjunct2, THEN conjunct2]
    show "generate_cases be prd given_summary config cnt
       = (Failure 500 (''Failed to parse LLM response: '' @ message e) (Some (content res)),
          \<lparr> calls = [(p, generateTestCasePrompt prd cnt)], parses = [content res] \<rparr>)"
      unfolding generate_cases_run [of prd config p be cnt res given_summary, OF nb np cp be]
      by (simp add: parse_batch_def pf parsing_def)
  qed
  have b: "\<not> blank summ \<and> \<not> blank followup
       \<and> context_for_prompt be no_trace (tc # tcs) p = (ctx, ctr)
       \<and> be (length (calls ctr)) p
            (generateAddMoreTestCasesPrompt summ ctx followup
               (case cnt of None \<Rightarrow> 5 | Some n \<Rightarrow> if n = 0 then 5 else n)) = Inr res
       \<and> parseTestCasesFromLLM (content res) = Inl e \<longrightarrow>
       add_more_cases be summ (JArr (tc # tcs)) followup cnt config
       = (Failure 500 (''Failed to parse LLM response: '' @ message e) (Some (content res)),
          \<lparr> calls = calls ctr @
                 [(p, generateAddMoreTestCasesPrompt summ ctx followup
                        (case cnt of None \<Rightarrow> 5 | Some n \<Rightarrow> if n = 0 then 5 else n))],
            parses = [content res] \<rparr>)"
  proof
    assume h: "\<not> blank summ \<and> \<not> blank followup
       \<and> context_for_prompt be no_trace (tc # tcs) p = (ctx, ctr)
       \<and> be (length (calls ctr)) p
            (generateAddMoreTestCasesPrompt summ ctx followup
               (case cnt of None \<Rightarrow> 5 | Some n \<Rightarrow> if n = 0 then 5 else n)) = Inr res
       \<and> parseTestCasesFromLLM (content res) = Inl e"
    note b1 = h [THEN conjunct1]
    note b2 = h [THEN conjunct2, THEN conjunct1]
    note cx = h [THEN conjunct2, THEN conjunct2, THEN conjunct1]
    note be = h [THEN conjunct2, THEN conjunct2, THEN conjunct2, THEN conjunct1]
    note pf = h [THEN conjunct2, THEN conjunct2, THEN conjunct2, THEN conjunct2]
    have "parses (snd (context_for_prompt be no_trace (tc # tcs) p)) = parses no_trace"
      by (rule context_for_prompt_parses)
    then have p0: "parses ctr = []" unfolding cx by (simp add: no_trace_def)
    show "add_more_cases be summ (JArr (tc # tcs)) followup cnt config
       = (Failure 500 (''Failed to parse LLM response: '' @ message e) (Some (content res)),
          \<lparr> calls = calls ctr @
                 [(p, generateAddMoreTestCasesPrompt summ ctx followup
                        (case cnt of None \<Rightarrow> 5 | Some n \<Rightarrow> if n = 0 then 5 else n))],
            parses = [content res] \<rparr>)"
      unfolding add_more_cases_run [of summ followup config p be tc tcs ctx ctr cnt res,
                                    OF b1 b2 cp cx be]
      using p0 by (simp add: parse_batch_def pf parsing_def)
  qed
  have c: "\<not> blank summ \<and> truthy testCase \<and> \<not> blank followup
       \<and> be 0 p (refineTestCasePrompt summ testCase followup) = Inr ini
       \<and> parseTestCaseFromLLM (extract_object (trim (content ini))) = Inl perr \<longrightarrow>
       calls (snd (refine_test_case be config summ testCase followup))
       = [(p, refineTestCasePrompt summ testCase followup),
          (p, generateJsonCorrectionPrompt (extract_object (trim (content ini))) (message perr)
                (system (refineTestCasePrompt summ testCase followup)))]
       \<and> (be 1 p (generateJsonCorrectionPrompt (extract_object (trim (content ini))) (message perr)
                    (system (refineTestCasePrompt summ testCase followup))) = Inr cor
            \<and> isl (parseTestCaseFromLLM (extract_object (trim (content cor)))) \<longrightarrow>
            (\<exists>msg. fst (refine_test_case be config summ testCase followup)
                    = Failure 500 msg (Some (content cor)))
            \<and> length (parses (snd (refine_test_case be config summ testCase followup))) = 2)"
    unfolding sys
  proof
    assume h: "\<not> blank summ \<and> truthy testCase \<and> \<not> blank followup
       \<and> be 0 p (refineTestCasePrompt summ testCase followup) = Inr ini
       \<and> parseTestCaseFromLLM (extract_object (trim (content ini))) = Inl perr"
    note b1 = h [THEN conjunct1]
    note tt = h [THEN conjunct2, THEN conjunct1]
    note b2 = h [THEN conjunct2, THEN conjunct2, THEN conjunct1]
    note be = h [THEN conjunct2, THEN conjunct2, THEN conjunct2, THEN conjunct1]
    note pf = h [THEN conjunct2, THEN conjunct2, THEN conjunct2, THEN conjunct2]
    note run = refine_test_case_repair [of summ testCase followup config p be ini perr, OF b1 tt b2 cp be pf]
    have c1: "calls (snd (refine_test_case be config summ testCase followup))
       = [(p, refineTestCasePrompt summ testCase followup),
          (p, generateJsonCorrectionPrompt (extract_object (trim (content ini))) (message perr)
                refine_system)]"
      unfolding run by (simp split: sum.split)
    have c2: "be 1 p (generateJsonCorrectionPrompt (extract_object (trim (content ini))) (message perr)
                    refine_system) = Inr cor
            \<and> isl (parseTestCaseFromLLM (extract_object (trim (content cor)))) \<longrightarrow>
            (\<exists>msg. fst (refine_test_case be config summ testCase followup)
                    = Failure 500 msg (Some (content cor)))
            \<and> length (parses (snd (refine_test_case be config summ testCase followup))) = 2"
      unfolding run by simp
    from c1 c2 show "calls (snd (refine_test_case be config summ testCase followup))
       = [(p, refineTestCasePrompt summ testCase followup),
          (p, generateJsonCorrectionPrompt (extract_object (trim (content ini))) (message perr)
                refine_system)]
       \<and> (be 1 p (generateJsonCorrectionPrompt (extract_object (trim (content ini))) (message perr)
                    refine_system) = Inr cor
            \<and> isl (parseTestCaseFromLLM (extract_object (trim (content cor)))) \<longrightarrow>
            (\<exists>msg. fst (refine_test_case be config summ testCase followup)
                    = Failure 500 msg (Some (content cor)))
            \<and> length (parses (snd (refine_test_case be config summ testCase followup))) = 2)"
      by (rule conjI)
  qed
  show ?thesis by (intro conjI) (rule a b c)+
qed

theorem parse_failure_handling_witness:
  "createProvider \<lparr> provider = Some ''ollama'', apiKey = None, model = None, endpoint = None,
                     deployment = None, apiVersion = None, baseUrl = None \<rparr>
     = Inr (Ollama ''llama3.1'' ''http://localhost:11434'')
   \<and> parseTestCasesFromLLM ''Sure: {\"title\": \"Login\" \"steps\": []}''
       = Inl (SyntaxError JSON_parse_message)
   \<and> generate_cases
        (scripted [Inr \<lparr> content = ''Sure: {\"title\": \"Login\" \"steps\": []}'', tokenUsage = None \<rparr>,
                   Inr \<lparr> content = ''{\"title\": Login}'', tokenUsage = None \<rparr>])
        ''Users can log in'' None
        \<lparr> provider = Some ''ollama'', apiKey = None, model = None, endpoint = None,
          deployment = None, apiVersion = None, baseUrl = None \<rparr> None
       = (Failure 500 (''Failed to parse LLM response: '' @ JSON_parse_message)
            (Some ''Sure: {\"title\": \"Login\" \"steps\": []}''),
          \<lparr> calls = [(Ollama ''llama3.1'' ''http://localhost:11434'',
                      generateTestCasePrompt ''Users can log in'' None)],
            parses = [''Sure: {\"title\": \"Login\" \"steps\": []}''] \<rparr>)
   \<and> add_more_cases
        (scripted [Inr \<lparr> content = ''Sure: {\"title\": \"Login\" \"steps\": []}'', tokenUsage = None \<rparr>,
                   Inr \<lparr> content = ''{\"title\": Login}'', tokenUsage = None \<rparr>])
        ''Login PRD'' (JArr [JObj [(''testId'', JStr ''TC-001''), (''title'', JStr ''Login'')]])
        ''Add negative cases'' None
        \<lparr> provider = Some ''ollama'', apiKey = None, model = None, endpoint = None,
          deployment = None, apiVersion = None, baseUrl = None \<rparr>
       = (Failure 500 (''Failed to parse LLM response: '' @ JSON_parse_message)
            (Some ''Sure: {\"title\": \"Login\" \"steps\": []}''),
          \<lparr> calls = [(Ollama ''llama3.1'' ''http://localhost:11434'',
                      generateAddMoreTestCasesPrompt ''Login PRD''
                        (Inr [JObj [(''testId'', JStr ''TC-001''), (''title'', JStr ''Login'')]])
                        ''Add negative cases'' 5)],
            parses = [''Sure: {\"title\": \"Login\" \"steps\": []}''] \<rparr>)
   \<and> extract_object (trim ''Sure: {\"title\": \"Login\" \"steps\": []}'')
       = ''{\"title\": \"Login\" \"steps\": []}''
   \<and> parseTestCaseFromLLM ''{\"title\": \"Login\" \"steps\": []}''
       = Inl (SyntaxError JSON_parse_message)
   \<and> isl (parseTestCaseFromLLM (extract_object (trim ''{\"title\": Login}'')))
   \<and> calls (snd (refine_test_case
        (scripted [Inr \<lparr> content = ''Sure: {\"title\": \"Login\" \"steps\": []}'', tokenUsage = None \<rparr>,
                   Inr \<lparr> content = ''{\"title\": Login}'', tokenUsage = None \<rparr>])
        \<lparr> provider = Some ''ollama'', apiKey = None, model = None, endpoint = None,
          deployment = None, apiVersion = None, baseUrl = None \<rparr>
        ''Login PRD'' (JObj [(''testId'', JStr ''TC-001''), (''title'', JStr ''Login'')])
        ''Add steps''))
       = [(Ollama ''llama3.1'' ''http://localhost:11434'',
           refineTestCasePrompt ''Login PRD''
             (JObj [(''testId'', JStr ''TC-001''), (''title'', JStr ''Login'')]) ''Add steps''),
          (Ollama ''llama3.1'' ''http://localhost:11434'',
           generateJsonCorrectionPrompt ''{\"title\": \"Login\" \"steps\": []}''
             JSON_parse_message refine_system)]
   \<and> length (parses (snd (refine_test_case
        (scripted [Inr \<lparr> content = ''Sure: {\"title\": \"Login\" \"steps\": []}'', tokenUsage = None \<rparr>,
                   Inr \<lparr> content = ''{\"title\": Login}'', tokenUsage = None \<rparr>])
        \<lparr> provider = Some ''ollama'', apiKey = None, model = None, endpoint = None,
          deployment = None, apiVersion = None, baseUrl = None \<rparr>
        ''Login PRD'' (JObj [(''testId'', JStr ''TC-001''), (''title'', JStr ''Login'')])
        ''Add steps''))) = 2
   \<and> (\<exists>msg. fst (refine_test_case
        (scripted [Inr \<lparr> content = ''Sure: {\"title\": \"Login\" \"steps\": []}'', tokenUsage = None \<rparr>,
                   Inr \<lparr> content = ''{\"title\": Login}'', tokenUsage = None \<rparr>])
        \<lparr> provider = Some ''ollama'', apiKey = None, model = None, endpoint = None,
          deployment = None, apiVersion = None, baseUrl = None \<rparr>
        ''Login PRD'' (JObj [(''testId'', JStr ''TC-001''), (''title'', JStr ''Login'')])
        ''Add steps'') = Failure 500 msg (Some ''{\"title\": Login}''))"
proof -
  let ?bada = "''Sure: {\"title\": \"Login\" \"steps\": []}''"
  let ?obj = "''{\"title\": \"Login\" \"steps\": []}''"
  let ?badb = "''{\"title\": Login}''"
  let ?ini = "\<lparr> content = ?bada, tokenUsage = None \<rparr>"
  let ?cor = "\<lparr> content = ?badb, tokenUsage = None \<rparr>"
  let ?be = "scripted [Inr ?ini, Inr ?cor]"
  let ?cfg = "\<lparr> provider = Some ''ollama'', apiKey = None, model = None, endpoint = None,
          deployment = None, apiVersion = None, baseUrl = None \<rparr>"
  let ?p = "Ollama ''llama3.1'' ''http://localhost:11434''"
  let ?tc = "JObj [(''testId'', JStr ''TC-001''), (''title'', JStr ''Login'')]"
  let ?e = "SyntaxError JSON_parse_message"
  have cp: "createProvider ?cfg = Inr ?p"
    by (simp add: createProvider_def ollamaProvider_def default_to_def missing_def given_def)
  have pb: "parseTestCasesFromLLM ?bada = Inl ?e" by code_simp
  have ex: "extract_object (trim ?bada) = ?obj" by code_simp
  have p0: "parseTestCaseFromLLM ?obj = Inl ?e" by code_simp
  have p1: "isl (parseTestCaseFromLLM (extract_object (trim ?badb)))" by code_simp
  have nb1: "\<not> blank ''Users can log in''" by code_simp
  have nb2: "\<not> blank ''Login PRD''" by code_simp
  have nb3: "\<not> blank ''Add negative cases''" by code_simp
  have nb4: "\<not> blank ''Add steps''" by code_simp
  have tt: "truthy ?tc" by simp
  have len: "length (JSON_stringify2 (JArr [?tc])) < 200" by code_simp
  then have small: "estimateTokens (JSON_stringify2 (JArr [?tc])) \<le> TOKEN_LIMIT_THRESHOLD"
    by (simp add: estimateTokens_div TOKEN_LIMIT_THRESHOLD_def)
  have cx: "context_for_prompt ?be no_trace [?tc] ?p = (Inr [?tc], no_trace)"
    using small by (rule context_for_prompt_small)
  have be0: "?be 0 ?p m = Inr ?ini" for m by (simp add: scripted_def)
  have be0': "?be (length (calls no_trace)) ?p m = Inr ?ini" for m
    by (simp add: scripted_def no_trace_def)
  have be1: "?be 1 ?p m = Inr ?cor" for m by (simp add: scripted_def)
  have msg: "message ?e = JSON_parse_message" by simp
  note th = parse_failure_handling
    [where config = ?cfg and p = ?p and be = ?be and prd = "''Users can log in''"
       and cnt = None and res = ?ini and e = ?e and given_summary = None
       and summ = "''Login PRD''" and tc = ?tc and tcs = "[]" and ctx = "Inr [?tc]"
       and ctr = no_trace and testCase = ?tc and ini = ?ini and perr = ?e and cor = ?cor, OF cp]
  note batch = th [where followup = "''Add negative cases''"]
  note refine = th [where followup = "''Add steps''", THEN conjunct2, THEN conjunct2]
  have a: "generate_cases ?be ''Users can log in'' None ?cfg None
       = (Failure 500 (''Failed to parse LLM response: '' @ JSON_parse_message) (Some ?bada),
          \<lparr> calls = [(?p, generateTestCasePrompt ''Users can log in'' None)],
            parses = [?bada] \<rparr>)"
    using batch [THEN conjunct1] nb1 be0 pb by simp
  have b: "add_more_cases ?be ''Login PRD'' (JArr [?tc]) ''Add negative cases'' None ?cfg
       = (Failure 500 (''Failed to parse LLM response: '' @ JSON_parse_message) (Some ?bada),
          \<lparr> calls = [(?p, generateAddMoreTestCasesPrompt ''Login PRD'' (Inr [?tc])
                              ''Add negative cases'' 5)],
            parses = [?bada] \<rparr>)"
    using batch [THEN conjunct2, THEN conjunct1] nb2 nb3 cx be0' pb
    by (simp add: no_trace_def)
  have hyp: "\<not> blank ''Login PRD'' \<and> truthy ?tc \<and> \<not> blank ''Add steps''
       \<and> ?be 0 ?p (refineTestCasePrompt ''Login PRD'' ?tc ''Add steps'') = Inr ?ini
       \<and> parseTestCaseFromLLM (extract_object (trim (content ?ini))) = Inl ?e"
    using nb2 tt nb4 be0 p0 ex by simp
  note rc = refine [THEN mp, OF hyp]
  have sys: "system (refineTestCasePrompt ''Login PRD'' ?tc ''Add steps'') = refine_system"
    by (simp add: refineTestCasePrompt_def)
  have c1: "calls (snd (refine_test_case ?be ?cfg ''Login PRD'' ?tc ''Add steps''))
       = [(?p, refineTestCasePrompt ''Login PRD'' ?tc ''Add steps''),
          (?p, generateJsonCorrectionPrompt ?obj JSON_parse_message refine_system)]"
    using rc [THEN conjunct1] by (simp only: GenerateResult.select_convs ex msg sys)
  have hyp2: "?be 1 ?p (generateJsonCorrectionPrompt (extract_object (trim (content ?ini)))
                 (message ?e) (system (refineTestCasePrompt ''Login PRD'' ?tc ''Add steps'')))
              = Inr ?cor
            \<and> isl (parseTestCaseFromLLM (extract_object (trim (content ?cor))))"
    using be1 p1 by simp
  note rc2 = rc [THEN conjunct2, THEN mp, OF hyp2]
  have c2: "length (parses (snd (refine_test_case ?be ?cfg ''Login PRD'' ?tc ''Add steps''))) = 2"
    using rc2 [THEN conjunct2] .
  have c3: "\<exists>msg. fst (refine_test_case ?be ?cfg ''Login PRD'' ?tc ''Add steps'')
                  = Failure 500 msg (Some ?badb)"
    using rc2 [THEN conjunct1] by (simp only: GenerateResult.select_convs)
  show ?thesis by (intro conjI) (rule cp pb a b ex p0 p1 c1 c2 c3)+
qed

text \<open>
  C6: before the incremental prompt is built, the token estimate of the serialized
  existing set (\<^verbatim>\<open>JSON.stringify\<close> with two spaces) is compared with the threshold
  constant 5000.

  \<^item> At or below the threshold the existing records themselves are the context and no
    backend call is made; the prompt then holds their serialization verbatim.
  \<^item> Above the threshold exactly one compression call is made, with the summarize
    prompt of the serialization; when it returns, its trimmed content is the context.
  \<^item> When that call fails, the context is the line \<^verbatim>\<open>Summary of N existing test cases:\<close>
    followed by the first 2000 characters of the serialization and three dots; no error
    is propagated.
  \<^item> In the route, the backend calls are those of the context followed by the one
    generation call, whose prompt is built from that context; the user prompt holds the
    text of the context.
\<close>

theorem context_for_prompt_threshold:
  "(estimateTokens (JSON_stringify2 (JArr xs)) \<le> TOKEN_LIMIT_THRESHOLD \<longrightarrow>
      context_for_prompt be tr xs p = (Inr xs, tr))
   \<and> (TOKEN_LIMIT_THRESHOLD < estimateTokens (JSON_stringify2 (JArr xs))
       \<and> be (length (calls tr)) p (summarize_prompt (JSON_stringify2 (JArr xs))) = Inr res \<longrightarrow>
      context_for_prompt be tr xs p
      = (Inl (trim (content res)),
         tr\<lparr> calls := calls tr @ [(p, summarize_prompt (JSON_stringify2 (JArr xs)))] \<rparr>))
   \<and> (TOKEN_LIMIT_THRESHOLD < estimateTokens (JSON_stringify2 (JArr xs))
       \<and> be (length (calls tr)) p (summarize_prompt (JSON_stringify2 (JArr xs))) = Inl err \<longrightarrow>
      context_for_prompt be tr xs p
      = (Inl (''Summary of '' @ string_of_nat (length xs) @ '' existing test cases:\<newline>''
              @ take 2000 (JSON_stringify2 (JArr xs)) @ ''...''),
         tr\<lparr> calls := calls tr @ [(p, summarize_prompt (JSON_stringify2 (JArr xs)))] \<rparr>))
   \<and> existingTestCasesText (Inr xs)
       = ''EXISTING TEST CASES ('' @ string_of_nat (length xs) @ '' total):\<newline>''
         @ JSON_stringify2 (JArr xs) @ addMore_list_note
   \<and> existingTestCasesText (Inl synopsis)
       = ''EXISTING TEST CASES SUMMARY:\<newline>'' @ synopsis @ addMore_summary_note
   \<and> (\<exists>a b. user (generateAddMoreTestCasesPrompt summ ctx followup n)
              = a @ existingTestCasesText ctx @ b)
   \<and> (\<not> blank summ \<and> \<not> blank followup \<and> createProvider config = Inr p \<and> xs \<noteq> [] \<longrightarrow>
      calls (snd (add_more_cases be summ (JArr xs) followup cnt config))
      = calls (snd (context_for_prompt be no_trace xs p))
        @ [(p, generateAddMoreTestCasesPrompt summ (fst (context_for_prompt be no_trace xs p))
                 followup (case cnt of None \<Rightarrow> 5 | Some k \<Rightarrow> if k = 0 then 5 else k))])
   \<and> TOKEN_LIMIT_THRESHOLD = 5000"
proof -
  let ?J = "JSON_stringify2 (JArr xs)"
  have a: "estimateTokens ?J \<le> TOKEN_LIMIT_THRESHOLD \<longrightarrow>
      context_for_prompt be tr xs p = (Inr xs, tr)"
    by (simp add: context_for_prompt_small)
  have b: "TOKEN_LIMIT_THRESHOLD < estimateTokens ?J
       \<and> be (length (calls tr)) p (summarize_prompt ?J) = Inr res \<longrightarrow>
      context_for_prompt be tr xs p
      = (Inl (trim (content res)), tr\<lparr> calls := calls tr @ [(p, summarize_prompt ?J)] \<rparr>)"
  proof
    assume h: "TOKEN_LIMIT_THRESHOLD < estimateTokens ?J
       \<and> be (length (calls tr)) p (summarize_prompt ?J) = Inr res"
    show "context_for_prompt be tr xs p
      = (Inl (trim (content res)), tr\<lparr> calls := calls tr @ [(p, summarize_prompt ?J)] \<rparr>)"
      unfolding context_for_prompt_large [OF h [THEN conjunct1]] h [THEN conjunct2] by simp
  qed
  have c: "TOKEN_LIMIT_THRESHOLD < estimateTokens ?J
       \<and> be (length (calls tr)) p (summarize_prompt ?J) = Inl err \<longrightarrow>
      context_for_prompt be tr xs p
      = (Inl (''Summary of '' @ string_of_nat (length xs) @ '' existing test cases:\<newline>''
              @ take 2000 ?J @ ''...''),
         tr\<lparr> calls := calls tr @ [(p, summarize_prompt ?J)] \<rparr>)"
  proof
    assume h: "TOKEN_LIMIT_THRESHOLD < estimateTokens ?J
       \<and> be (length (calls tr)) p (summarize_prompt ?J) = Inl err"
    show "context_for_prompt be tr xs p
      = (Inl (''Summary of '' @ string_of_nat (length xs) @ '' existing test cases:\<newline>''
              @ take 2000 ?J @ ''...''),
         tr\<lparr> calls := calls tr @ [(p, summarize_prompt ?J)] \<rparr>)"
      unfolding context_for_prompt_large [OF h [THEN conjunct1]] h [THEN conjunct2] by simp
  qed
  have d: "existingTestCasesText (Inr xs)
       = ''EXISTING TEST CASES ('' @ string_of_nat (length xs) @ '' total):\<newline>''
         @ ?J @ addMore_list_note"
    by (simp add: existingTestCasesText_def)
  have e: "existingTestCasesText (Inl synopsis)
       = ''EXISTING TEST CASES SUMMARY:\<newline>'' @ synopsis @ addMore_summary_note"
    by (simp add: existingTestCasesText_def)
  have f: "\<exists>a b. user (generateAddMoreTestCasesPrompt summ ctx followup n)
              = a @ existingTestCasesText ctx @ b"
  proof (intro exI)
    show "user (generateAddMoreTestCasesPrompt summ ctx followup n)
          = (''Generate '' @ string_of_nat n @ addMore_user_head @ summ @ ''\<newline>\<newline>'')
            @ existingTestCasesText ctx
            @ (''\<newline>\<newline>USER'' @ [CHR 0x27] @ ''S INSTRUCTION:\<newline>'' @ followup
               @ ''\<newline>\<newline>Generate exactly '' @ string_of_nat n @ addMore_user_tail)"
      by (simp add: generateAddMoreTestCasesPrompt_def)
  qed
  have g: "\<not> blank summ \<and> \<not> blank followup \<and> createProvider config = Inr p \<and> xs \<noteq> [] \<longrightarrow>
      calls (snd (add_more_cases be summ (JArr xs) followup cnt config))
      = calls (snd (context_for_prompt be no_trace xs p))
        @ [(p, generateAddMoreTestCasesPrompt summ (fst (context_for_prompt be no_trace xs p))
                 followup (case cnt of None \<Rightarrow> 5 | Some k \<Rightarrow> if k = 0 then 5 else k))]"
  proof
    assume h: "\<not> blank summ \<and> \<not> blank followup \<and> createProvider config = Inr p \<and> xs \<noteq> []"
    then obtain tc tcs where xs: "xs = tc # tcs" by (cases xs) auto
    show "calls (snd (add_more_cases be summ (JArr xs) followup cnt config))
      = calls (snd (context_for_prompt be no_trace xs p))
        @ [(p, generateAddMoreTestCasesPrompt summ (fst (context_for_prompt be no_trace xs p))
                 followup (case cnt of None \<Rightarrow> 5 | Some k \<Rightarrow> if k = 0 then 5 else k))]"
      unfolding xs
      by (rule add_more_cases_calls
            [OF h [THEN conjunct1] h [THEN conjunct2, THEN conjunct1]
                h [THEN conjunct2, THEN conjunct2, THEN conjunct1]])
  qed
  have t: "TOKEN_LIMIT_THRESHOLD = 5000" by (simp add: TOKEN_LIMIT_THRESHOLD_def)
  show ?thesis by (intro conjI) (rule a b c d e f g t)+
qed

theorem context_for_prompt_threshold_witness:
  "estimateTokens (JSON_stringify2
       (JArr [JObj [(''testId'', JStr ''TC-001''), (''title'', JStr ''Login'')]]))
     \<le> TOKEN_LIMIT_THRESHOLD
   \<and> context_for_prompt (scripted []) no_trace
        [JObj [(''testId'', JStr ''TC-001''), (''title'', JStr ''Login'')]]
        (Ollama ''llama3.1'' ''http://localhost:11434'')
       = (Inr [JObj [(''testId'', JStr ''TC-001''), (''title'', JStr ''Login'')]], no_trace)
   \<and> TOKEN_LIMIT_THRESHOLD
       < estimateTokens (JSON_stringify2 (JArr [JObj [(''title'', JStr (replicate 20000 (CHR ''a'')))]]))
   \<and> context_for_prompt
        (scripted [Inr \<lparr> content = '' Login with a long title is covered. '', tokenUsage = None \<rparr>])
        no_trace [JObj [(''title'', JStr (replicate 20000 (CHR ''a'')))]]
        (Ollama ''llama3.1'' ''http://localhost:11434'')
       = (Inl ''Login with a long title is covered.'',
          \<lparr> calls = [(Ollama ''llama3.1'' ''http://localhost:11434'',
                      summarize_prompt (JSON_stringify2
                        (JArr [JObj [(''title'', JStr (replicate 20000 (CHR ''a'')))]])))],
            parses = [] \<rparr>)
   \<and> context_for_prompt (scripted []) no_trace
        [JObj [(''title'', JStr (replicate 20000 (CHR ''a'')))]]
        (Ollama ''llama3.1'' ''http://localhost:11434'')
       = (Inl (''Summary of 1 existing test cases:\<newline>''
               @ take 2000 (JSON_stringify2
                   (JArr [JObj [(''title'', JStr (replicate 20000 (CHR ''a'')))]]))
               @ ''...''),
          \<lparr> calls = [(Ollama ''llama3.1'' ''http://localhost:11434'',
                      summarize_prompt (JSON_stringify2
                        (JArr [JObj [(''title'', JStr (replicate 20000 (CHR ''a'')))]])))],
            parses = [] \<rparr>)
   \<and> calls (snd (add_more_cases
        (scripted [Inr \<lparr> content = '' Login with a long title is covered. '', tokenUsage = None \<rparr>])
        ''Login PRD'' (JArr [JObj [(''title'', JStr (replicate 20000 (CHR ''a'')))]])
        ''Add negative cases'' None
        \<lparr> provider = Some ''ollama'', apiKey = None, model = None, endpoint = None,
          deployment = None, apiVersion = None, baseUrl = None \<rparr>))
       = [(Ollama ''llama3.1'' ''http://localhost:11434'',
           summarize_prompt (JSON_stringify2
             (JArr [JObj [(''title'', JStr (replicate 20000 (CHR ''a'')))]]))),
          (Ollama ''llama3.1'' ''http://localhost:11434'',
           generateAddMoreTestCasesPrompt ''Login PRD''
             (Inl ''Login with a long title is covered.'') ''Add negative cases'' 5)]"
proof -
  let ?small = "[JObj [(''testId'', JStr ''TC-001''), (''title'', JStr ''Login'')]]"
  let ?big = "[JObj [(''title'', JStr (replicate 20000 (CHR ''a'')))]]"
  let ?J = "JSON_stringify2 (JArr ?big)"
  let ?p = "Ollama ''llama3.1'' ''http://localhost:11434''"
  let ?res = "\<lparr> content = '' Login with a long title is covered. '', tokenUsage = None \<rparr>"
  let ?ok = "scripted [Inr ?res]"
  let ?down = "scripted []"
  let ?cfg = "\<lparr> provider = Some ''ollama'', apiKey = None, model = None, endpoint = None,
          deployment = None, apiVersion = None, baseUrl = None \<rparr>"
  have len: "length (JSON_stringify2 (JArr ?small)) < 200" by code_simp
  then have small: "estimateTokens (JSON_stringify2 (JArr ?small)) \<le> TOKEN_LIMIT_THRESHOLD"
    by (simp add: estimateTokens_div TOKEN_LIMIT_THRESHOLD_def)
  have big: "TOKEN_LIMIT_THRESHOLD < estimateTokens ?J"
    by (simp add: estimateTokens_div long_title_length TOKEN_LIMIT_THRESHOLD_def)
  have tr: "trim '' Login with a long title is covered. '' = ''Login with a long title is covered.''"
    by code_simp
  have one: "string_of_nat (length ?big) = ''1''" by code_simp
  have ok: "?ok (length (calls no_trace)) ?p (summarize_prompt ?J) = Inr ?res"
    by (simp add: scripted_def no_trace_def)
  have down: "?down (length (calls no_trace)) ?p (summarize_prompt ?J)
              = Inl (Error ''fetch failed'')"
    by (simp add: scripted_def)
  have upd: "no_trace\<lparr> calls := calls no_trace @ [c] \<rparr> = \<lparr> calls = [c], parses = [] \<rparr>" for c
    by (simp add: no_trace_def)
  have cp: "createProvider ?cfg = Inr ?p"
    by (simp add: createProvider_def ollamaProvider_def default_to_def missing_def given_def)
  have nb1: "\<not> blank ''Login PRD''" by code_simp
  have nb2: "\<not> blank ''Add negative cases''" by code_simp
  note t1 = context_for_prompt_threshold
    [where xs = ?small and be = ?down and tr = no_trace and p = ?p, THEN conjunct1]
  from t1 small
  have a: "context_for_prompt ?down no_trace ?small ?p = (Inr ?small, no_trace)" by blast
  note t2 = context_for_prompt_threshold
    [where xs = ?big and be = ?ok and tr = no_trace and p = ?p and res = ?res,
     THEN conjunct2, THEN conjunct1]
  from t2 big ok
  have "context_for_prompt ?ok no_trace ?big ?p
        = (Inl (trim (content ?res)), no_trace\<lparr> calls := calls no_trace @ [(?p, summarize_prompt ?J)] \<rparr>)"
    by blast
  then have b: "context_for_prompt ?ok no_trace ?big ?p
        = (Inl ''Login with a long title is covered.'',
           \<lparr> calls = [(?p, summarize_prompt ?J)], parses = [] \<rparr>)"
    by (simp only: upd GenerateResult.select_convs tr)
  note t3 = context_for_prompt_threshold
    [where xs = ?big and be = ?down and tr = no_trace and p = ?p
       and err = "Error ''fetch failed''",
     THEN conjunct2, THEN conjunct2, THEN conjunct1]
  from t3 big down
  have "context_for_prompt ?down no_trace ?big ?p
        = (Inl (''Summary of '' @ string_of_nat (length ?big) @ '' existing test cases:\<newline>''
                @ take 2000 ?J @ ''...''),
           no_trace\<lparr> calls := calls no_trace @ [(?p, summarize_prompt ?J)] \<rparr>)"
    by blast
  then have c: "context_for_prompt ?down no_trace ?big ?p
        = (Inl (''Summary of 1 existing test cases:\<newline>'' @ take 2000 ?J @ ''...''),
           \<lparr> calls = [(?p, summarize_prompt ?J)], parses = [] \<rparr>)"
    by (simp only: upd one append_Cons append_Nil)
  note t4 = context_for_prompt_threshold
    [where xs = ?big and be = ?ok and p = ?p and summ = "''Login PRD''"
       and followup = "''Add negative cases''" and config = ?cfg and cnt = None,
     THEN conjunct2, THEN conjunct2, THEN conjunct2, THEN conjunct2, THEN conjunct2,
     THEN conjunct2, THEN conjunct1]
  have ne: "?big \<noteq> []" by simp
  from t4 nb1 nb2 cp ne
  have "calls (snd (add_more_cases ?ok ''Login PRD'' (JArr ?big) ''Add negative cases'' None ?cfg))
      = calls (snd (context_for_prompt ?ok no_trace ?big ?p))
        @ [(?p, generateAddMoreTestCasesPrompt ''Login PRD''
                 (fst (context_for_prompt ?ok no_trace ?big ?p)) ''Add negative cases''
                 (case None of None \<Rightarrow> 5 | Some k \<Rightarrow> if k = 0 then 5 else k))]"
    by blast
  then have d: "calls (snd (add_more_cases ?ok ''Login PRD'' (JArr ?big) ''Add negative cases''
                   None ?cfg))
      = [(?p, summarize_prompt ?J),
         (?p, generateAddMoreTestCasesPrompt ''Login PRD''
                (Inl ''Login with a long title is covered.'') ''Add negative cases'' 5)]"
    unfolding b by simp
  show ?thesis by (intro conjI) (rule small a big b c d)+
qed

end
